theory Spec2Isabelle
  imports Main "HOL-Library.Word" "HOL-Library.AList"
begin

section \<open>Common types\<close>

text \<open>
  Go's \<open>int64\<close> is a 64-bit word read in two's complement (\<open>sint\<close>); \<open>+\<close>, \<open>-\<close> and \<open>*\<close>
  wrap around as Go's do. Go's \<open>int\<close> is taken at its 64-bit width.
\<close>

type_synonym int64 = "64 word"

text \<open>
  An \<open>error\<close> value is built by \<open>errors.New(msg)\<close> or by \<open>errors.Wrap(err, context)\<close>;
  \<open>nil\<close> is \<open>None\<close> of \<open>error option\<close>.
\<close>

datatype error = New string | Wrap error string

text \<open>\<open>strconv.FormatInt(i, 10)\<close>: the decimal digits, with a minus sign below zero.\<close>

function FormatUint :: "nat \<Rightarrow> string" where
  "FormatUint n =
     (if n < 10 then [''0123456789'' ! n]
      else FormatUint (n div 10) @ [''0123456789'' ! (n mod 10)])"
  by pat_completeness auto
termination
  by (relation "measure (\<lambda>n. n)") auto

declare FormatUint.simps [simp del]

definition FormatInt :: "int64 \<Rightarrow> string" where
  "FormatInt i =
     (if sint i < 0 then CHR ''-'' # FormatUint (nat (- sint i)) else FormatUint (nat (sint i)))"

section \<open>atomicCounter: the budget counter\<close>

record atomicCounter =
  count :: int64
  max_c :: int64

definition NewAtomicCounter :: "int64 \<Rightarrow> atomicCounter" where
  "NewAtomicCounter m = \<lparr>count = 0, max_c = m\<rparr>"

text \<open>The three primitives of \<open>sync/atomic\<close> the counter uses, on the value of the cell.\<close>

definition LoadInt64 :: "int64 \<Rightarrow> int64" where
  "LoadInt64 v = v"

definition CompareAndSwapInt64 :: "int64 \<Rightarrow> int64 \<Rightarrow> int64 \<Rightarrow> bool \<times> int64" where
  "CompareAndSwapInt64 v old new = (if v = old then (True, new) else (False, v))"

definition AddInt64 :: "int64 \<Rightarrow> int64 \<Rightarrow> int64" where
  "AddInt64 v delta = v + delta"

text \<open>
  \<open>TryIncrement\<close> is the source's load / compare / compare-and-swap loop. A call is one step
  of the model: nothing touches the cell between its load and its compare-and-swap, so
  the swap succeeds and the retry branch of the loop is never taken (this is the
  termination argument).
\<close>

function TryIncrement :: "atomicCounter \<Rightarrow> bool \<times> atomicCounter" where
  "TryIncrement ac =
     (let current = LoadInt64 (count ac) in
      if sint (max_c ac) \<le> sint current then (False, ac)
      else if fst (CompareAndSwapInt64 (count ac) current (current + 1))
        then (True, ac\<lparr>count := snd (CompareAndSwapInt64 (count ac) current (current + 1))\<rparr>)
        else TryIncrement (ac\<lparr>count := snd (CompareAndSwapInt64 (count ac) current (current + 1))\<rparr>))"
  by pat_completeness auto
termination
  by (relation "{}") (auto simp: LoadInt64_def CompareAndSwapInt64_def)

declare TryIncrement.simps [simp del]

definition Decrement :: "atomicCounter \<Rightarrow> atomicCounter" where
  "Decrement ac = ac\<lparr>count := AddInt64 (count ac) (- 1)\<rparr>"

definition Get :: "atomicCounter \<Rightarrow> int64" where
  "Get ac = LoadInt64 (count ac)"

definition GetMax :: "atomicCounter \<Rightarrow> int64" where
  "GetMax ac = max_c ac"

text \<open>
  A sequence of calls on one counter, in the order in which they take effect. The result is
  the list of answers of the \<open>TryIncrement\<close> calls and the counter afterwards.
\<close>

datatype counterOp = CallTryIncrement | CallDecrement

fun runOps :: "counterOp list \<Rightarrow> atomicCounter \<Rightarrow> bool list \<times> atomicCounter" where
  "runOps [] ac = ([], ac)"
| "runOps (CallTryIncrement # ops) ac =
     (let (ok, ac1) = TryIncrement ac; (oks, ac2) = runOps ops ac1 in (ok # oks, ac2))"
| "runOps (CallDecrement # ops) ac = runOps ops (Decrement ac)"

definition successes :: "bool list \<Rightarrow> nat" where
  "successes oks = length (filter (\<lambda>ok. ok) oks)"

definition decrements :: "counterOp list \<Rightarrow> nat" where
  "decrements ops = length (filter (\<lambda>op. op = CallDecrement) ops)"

text \<open>
  The same counter at the grain of its atomic primitives, for goroutines that run
  \<open>TryIncrement\<close> and \<open>Decrement\<close> side by side. A goroutine inside \<open>TryIncrement\<close> holds its local
  \<open>current\<close> between the load and the compare-and-swap; a failed compare-and-swap sends it back
  to the load. A schedule is a list of atomic steps, each by one goroutine.
\<close>

datatype atomicStep = LoadStep nat | SwapStep nat | AddStep

record sharedCounter =
  cell :: int64
  ceiling :: int64
  current :: "nat \<Rightarrow> int64 option"
  answers :: "(nat \<times> bool) list"

fun runStep :: "atomicStep \<Rightarrow> sharedCounter \<Rightarrow> sharedCounter" where
  "runStep (LoadStep g) s =
     (if current s g \<noteq> None then s
      else
        (let cur = LoadInt64 (cell s) in
         if sint (ceiling s) \<le> sint cur then s\<lparr>answers := answers s @ [(g, False)]\<rparr>
         else s\<lparr>current := (current s)(g \<mapsto> cur)\<rparr>))"
| "runStep (SwapStep g) s =
     (case current s g of
        None \<Rightarrow> s
      | Some cur \<Rightarrow>
          (if fst (CompareAndSwapInt64 (cell s) cur (cur + 1))
           then s\<lparr>cell := snd (CompareAndSwapInt64 (cell s) cur (cur + 1)),
                  current := (current s)(g := None),
                  answers := answers s @ [(g, True)]\<rparr>
           else s\<lparr>current := (current s)(g := None)\<rparr>))"
| "runStep AddStep s = s\<lparr>cell := AddInt64 (cell s) (- 1)\<rparr>"

fun interleave :: "atomicStep list \<Rightarrow> sharedCounter \<Rightarrow> sharedCounter" where
  "interleave [] s = s"
| "interleave (a # steps) s = interleave steps (runStep a s)"

definition addSteps :: "atomicStep list \<Rightarrow> nat" where
  "addSteps steps = length (filter (\<lambda>a. a = AddStep) steps)"

section \<open>giftValidator\<close>

text \<open>
  The fields of \<open>tg.StarGift\<close> that the code reads. An optional field of the wire type
  (a value with a presence flag) is an \<open>option\<close>; its getter returns the zero value and
  \<open>false\<close> when the field is absent.
\<close>

record StarGift =
  ID :: int64
  Stars :: int64
  Limited :: bool
  SoldOut :: bool
  RequirePremium :: bool
  AvailabilityRemains :: "int64 option"
  AvailabilityTotal :: "int64 option"
  ReleasedBy :: "int64 option"

definition GetStars :: "StarGift \<Rightarrow> int64" where
  "GetStars gift = Stars gift"

definition GetAvailabilityRemains :: "StarGift \<Rightarrow> int64 \<times> bool" where
  "GetAvailabilityRemains gift =
     (case AvailabilityRemains gift of None \<Rightarrow> (0, False) | Some v \<Rightarrow> (v, True))"

definition GetAvailabilityTotal :: "StarGift \<Rightarrow> int64 \<times> bool" where
  "GetAvailabilityTotal gift =
     (case AvailabilityTotal gift of None \<Rightarrow> (0, False) | Some v \<Rightarrow> (v, True))"

definition GetReleasedBy :: "StarGift \<Rightarrow> int64 \<times> bool" where
  "GetReleasedBy gift =
     (case ReleasedBy gift of None \<Rightarrow> (0, False) | Some v \<Rightarrow> (v, True))"

definition GetRequirePremium :: "StarGift \<Rightarrow> bool" where
  "GetRequirePremium gift = RequirePremium gift"

record Criterias =
  MinPrice :: int64
  MaxPrice :: int64
  TotalSupply :: int64
  Count :: int64
  ReceiverType_c :: "int64 list"
  Hide_c :: bool

record GiftRequire =
  Gift :: StarGift
  ReceiverType :: "int64 list"
  CountForBuy :: int64
  Hide :: bool

record giftValidatorImpl =
  limitedStatus :: bool
  releaseBy :: bool
  premium :: bool
  criteria :: "Criterias list"
  totalStarCap :: int64
  testMode :: bool

definition priceValid :: "Criterias \<Rightarrow> StarGift \<Rightarrow> bool" where
  "priceValid c gift =
     (let giftPrice = GetStars gift in
      if sint (MinPrice c) \<le> sint giftPrice \<and> sint giftPrice \<le> sint (MaxPrice c) then True
      else False)"

definition supplyValid :: "giftValidatorImpl \<Rightarrow> Criterias \<Rightarrow> StarGift \<Rightarrow> bool" where
  "supplyValid gv c gift =
     (if testMode gv then True
      else if Limited gift then
        (let (remains, hasRemains) = GetAvailabilityRemains gift in
         if \<not> hasRemains \<or> sint remains \<le> 0 then False
         else
           (let (totalSupply, hasTotalSupply) = GetAvailabilityTotal gift in
            if \<not> hasTotalSupply then False
            else if sint totalSupply \<le> sint (TotalSupply c) then True
            else False))
      else True)"

definition starCapValidation :: "giftValidatorImpl \<Rightarrow> StarGift \<Rightarrow> bool" where
  "starCapValidation gv gift =
     (if testMode gv then True
      else
        (let price = GetStars gift;
             giftSupply = fst (GetAvailabilityTotal gift)
         in sint (price * giftSupply) \<le> sint (totalStarCap gv)))"

definition releaseByValidation :: "giftValidatorImpl \<Rightarrow> StarGift \<Rightarrow> bool" where
  "releaseByValidation gv gift =
     (let hasReleasedBy = snd (GetReleasedBy gift) in
      if hasReleasedBy \<and> \<not> releaseBy gv then False else True)"

definition premiumValidation :: "giftValidatorImpl \<Rightarrow> StarGift \<Rightarrow> bool" where
  "premiumValidation gv gift =
     (let p = GetRequirePremium gift in
      if premium gv \<and> \<not> p then False else True)"

text \<open>The loop over \<open>gv.criteria\<close> in \<open>IsEligible\<close>; \<open>(nil, false)\<close> is \<open>None\<close>.\<close>

fun matchCriteria :: "giftValidatorImpl \<Rightarrow> StarGift \<Rightarrow> Criterias list \<Rightarrow> GiftRequire option" where
  "matchCriteria gv gift [] = None"
| "matchCriteria gv gift (c # cs) =
     (if priceValid c gift \<and> supplyValid gv c gift \<and> starCapValidation gv gift
      then Some \<lparr>Gift = gift, ReceiverType = ReceiverType_c c, CountForBuy = Count c, Hide = Hide_c c\<rparr>
      else matchCriteria gv gift cs)"

definition IsEligible :: "giftValidatorImpl \<Rightarrow> StarGift \<Rightarrow> GiftRequire option" where
  "IsEligible gv gift =
     (if SoldOut gift then None
      else if Limited gift \<noteq> limitedStatus gv then None
      else if \<not> releaseByValidation gv gift then None
      else if \<not> premiumValidation gv gift then None
      else matchCriteria gv gift (criteria gv))"

section \<open>giftCache\<close>

text \<open>
  \<open>GiftCacheImpl.cache\<close> is a Go map from gift identifiers to gifts. It is kept as an
  association list: \<open>map_of\<close> is the lookup, and the order of the list is the order in which
  \<open>range\<close> visits the map, which Go leaves open. \<open>DeleteGift\<close> and \<open>Clear\<close> have no caller
  outside the tests and are not modelled.
\<close>

type_synonym GiftCacheImpl = "(int64 \<times> StarGift) list"

definition SetGift :: "GiftCacheImpl \<Rightarrow> int64 \<Rightarrow> StarGift \<Rightarrow> GiftCacheImpl" where
  "SetGift gc i gift = AList.update i gift gc"

definition GetGift :: "GiftCacheImpl \<Rightarrow> int64 \<Rightarrow> StarGift option" where
  "GetGift gc i = map_of gc i"

definition HasGift :: "GiftCacheImpl \<Rightarrow> int64 \<Rightarrow> bool" where
  "HasGift gc i = (map_of gc i \<noteq> None)"


text \<open>
  The durable snapshot \<open>cache.json\<close>, as \<open>json.Unmarshal\<close> sees it: no file, a file on which
  decoding fails (leaving \<open>existingCache\<close> nil or partly filled), or a JSON object from keys to
  \<open>{id, stars}\<close>. A call of \<open>saveToFile\<close> may meet a failing \<open>os.ReadFile\<close>, a failing
  \<open>json.MarshalIndent\<close> or a failing \<open>os.WriteFile\<close>; a failed write leaves some content behind,
  which the world supplies. The trace of a call lists its file operations and its log lines
  (without the text of the error they end in).
\<close>

record CachedGift =
  ID_c :: int64
  Stars_c :: int64

datatype fileContent =
    NoFile
  | Malformed "(string \<rightharpoonup> CachedGift) option"
  | Json "string \<rightharpoonup> CachedGift"

record ioFaults =
  readFault :: "error option"
  marshalFault :: "error option"
  writeFault :: "(error \<times> fileContent) option"

datatype ioEvent =
    ReadFile string
  | WriteFile string
  | Warnf string
  | Errorf string
  | Infof string

fun mergeNew :: "(int64 \<times> StarGift) list \<Rightarrow> (string \<rightharpoonup> CachedGift) \<Rightarrow> nat
    \<Rightarrow> (string \<rightharpoonup> CachedGift) \<times> nat" where
  "mergeNew [] existingCache newGifts = (existingCache, newGifts)"
| "mergeNew ((i, gift) # rest) existingCache newGifts =
     (let key = FormatInt i in
      if existingCache key = None
      then mergeNew rest (existingCache(key \<mapsto> \<lparr>ID_c = ID gift, Stars_c = Stars gift\<rparr>))
             (newGifts + 1)
      else mergeNew rest existingCache newGifts)"

definition readExisting :: "ioFaults \<Rightarrow> fileContent
    \<Rightarrow> (string \<rightharpoonup> CachedGift) option \<times> ioEvent list" where
  "readExisting faults file =
     (case readFault faults of
        Some err \<Rightarrow> (None, [ReadFile ''cache.json''])
      | None \<Rightarrow>
          (case file of
             NoFile \<Rightarrow> (None, [ReadFile ''cache.json''])
           | Malformed partial \<Rightarrow>
               (partial, [ReadFile ''cache.json'', Warnf ''Failed to unmarshal existing cache''])
           | Json m \<Rightarrow> (Some m, [ReadFile ''cache.json''])))"

definition saveToFile :: "GiftCacheImpl \<Rightarrow> ioFaults \<Rightarrow> fileContent \<Rightarrow> fileContent \<times> ioEvent list" where
  "saveToFile gc faults file =
     (let (decoded, ev) = readExisting faults file;
          existingCache = (case decoded of None \<Rightarrow> Map.empty | Some m \<Rightarrow> m);
          (merged, newGifts) = mergeNew gc existingCache 0
      in if newGifts = 0 then (file, ev)
         else (case marshalFault faults of
                 Some err \<Rightarrow> (file, ev @ [Errorf ''Failed to marshal cache''])
               | None \<Rightarrow>
                   (case writeFault faults of
                      Some (err, leftover) \<Rightarrow>
                        (leftover, ev @ [WriteFile ''cache.json'',
                                         Errorf ''Failed to write cache to file''])
                    | None \<Rightarrow>
                        (Json merged,
                         ev @ [WriteFile ''cache.json'',
                               Infof (''Saved '' @ FormatUint newGifts @ '' new gifts to cache file'')]))))"

definition entriesOf :: "fileContent \<Rightarrow> (string \<rightharpoonup> CachedGift)" where
  "entriesOf file = (case file of Json m \<Rightarrow> m | _ \<Rightarrow> Map.empty)"


section \<open>giftMonitor\<close>

text \<open>
  Effects of the monitor are a trace of events: lines given to the two log writers and calls
  of the notifier. What \<open>manager.GetAvailableGifts\<close> answers is an input of \<open>checkForNewGifts\<close>.
\<close>

datatype monitorEvent = LogInfo string | LogError error | SendErrorNotification error

record giftMonitorImpl =
  cache :: GiftCacheImpl
  validator :: giftValidatorImpl
  paused :: bool
  firstRun :: bool
  testMode_m :: bool

definition NewGiftMonitor :: "GiftCacheImpl \<Rightarrow> giftValidatorImpl \<Rightarrow> bool \<Rightarrow> giftMonitorImpl" where
  "NewGiftMonitor c v t = \<lparr>cache = c, validator = v, paused = False, firstRun = True, testMode_m = t\<rparr>"

definition firstRunError :: error where
  "firstRunError = Wrap (New ''first run'') ''touch grass''"

fun scanGifts :: "giftValidatorImpl \<Rightarrow> StarGift list \<Rightarrow> GiftCacheImpl
    \<Rightarrow> GiftRequire list \<times> GiftCacheImpl \<times> monitorEvent list" where
  "scanGifts v [] gc = ([], gc, [])"
| "scanGifts v (gift # gifts) gc =
     (if HasGift gc (ID gift) then scanGifts v gifts gc
      else
        (let (newValidGifts, gc', ev) = scanGifts v gifts (SetGift gc (ID gift) gift) in
         case IsEligible v gift of
           Some giftRequire \<Rightarrow>
             (giftRequire\<lparr>Gift := gift\<rparr> # newValidGifts, gc',
              LogInfo (''gift id '' @ FormatInt (ID gift) @ '' is valid'') # ev)
         | None \<Rightarrow> (newValidGifts, gc', ev)))"

definition checkForNewGifts :: "giftMonitorImpl \<Rightarrow> error + StarGift list
    \<Rightarrow> (error + GiftRequire list) \<times> monitorEvent list \<times> giftMonitorImpl" where
  "checkForNewGifts gm fetched =
     (case fetched of
        Inl err \<Rightarrow> (Inl err, [], gm)
      | Inr currentGifts \<Rightarrow>
          (let (newValidGifts, gc', ev) = scanGifts (validator gm) currentGifts (cache gm);
               gm1 = gm\<lparr>cache := gc'\<rparr>
           in if firstRun gm1 \<and> \<not> testMode_m gm1
              then (Inl firstRunError, ev, gm1\<lparr>firstRun := False\<rparr>)
              else (Inr newValidGifts, ev, gm1)))"

definition Pause :: "giftMonitorImpl \<Rightarrow> giftMonitorImpl \<times> monitorEvent list" where
  "Pause gm = (if \<not> paused gm then (gm\<lparr>paused := True\<rparr>, [LogInfo ''Gift monitoring paused''])
               else (gm, []))"

definition Resume :: "giftMonitorImpl \<Rightarrow> giftMonitorImpl \<times> monitorEvent list" where
  "Resume gm = (if paused gm then (gm\<lparr>paused := False\<rparr>, [LogInfo ''Gift monitoring resumed''])
                else (gm, []))"

definition IsPaused :: "giftMonitorImpl \<Rightarrow> bool" where
  "IsPaused gm = paused gm"

fun pollAll :: "giftMonitorImpl \<Rightarrow> (error + StarGift list) list \<Rightarrow> giftMonitorImpl" where
  "pollAll gm [] = gm"
| "pollAll gm (fetched # rest) = pollAll (snd (snd (checkForNewGifts gm fetched))) rest"


text \<open>
  \<open>Start\<close> is a \<open>select\<close> loop over the context, the ticker and two buffered channels. The
  schedule lists which case fires next, with what the outside world supplies there: the
  context's error, the catalog's answer to the poll a tick starts, the notifier's answer to an
  error notification. The poll a tick starts runs to its end and puts its outcome on a channel
  before the next case fires; the channels are queues (the bound of 10 is not modelled). A
  receive case on an empty channel is not ready and is skipped. The result \<open>None\<close> means the
  loop is still waiting when the schedule ends.
\<close>

datatype selectCase =
    CtxDone error
  | TickerC "error + StarGift list"
  | RecvResult
  | RecvErr "error option"
  | CallPause
  | CallResume

record startLoop =
  monitor :: giftMonitorImpl
  resultCh :: "GiftRequire list list"
  errCh :: "error list"

definition logged :: "monitorEvent list \<Rightarrow> 'r \<times> monitorEvent list \<times> 's \<Rightarrow> 'r \<times> monitorEvent list \<times> 's" where
  "logged ev out = (fst out, ev @ fst (snd out), snd (snd out))"

fun Start :: "startLoop \<Rightarrow> selectCase list
    \<Rightarrow> (error + GiftRequire list) option \<times> monitorEvent list \<times> startLoop" where
  "Start s [] = (None, [], s)"
| "Start s (CtxDone ctxErr # sched) = (Some (Inl ctxErr), [], s)"
| "Start s (TickerC fetched # sched) =
     (if IsPaused (monitor s) then Start s sched
      else
        (case checkForNewGifts (monitor s) fetched of
           (Inl err, ev, gm') \<Rightarrow>
             logged ev (Start (s\<lparr>monitor := gm', errCh := errCh s @ [err]\<rparr>) sched)
         | (Inr newGifts, ev, gm') \<Rightarrow>
             if length newGifts = 0
             then logged (ev @ [LogInfo ''no new gifts found'']) (Start (s\<lparr>monitor := gm'\<rparr>) sched)
             else logged ev (Start (s\<lparr>monitor := gm', resultCh := resultCh s @ [newGifts]\<rparr>) sched)))"
| "Start s (RecvResult # sched) =
     (case resultCh s of
        [] \<Rightarrow> Start s sched
      | newGifts # waiting \<Rightarrow> (Some (Inr newGifts), [], s\<lparr>resultCh := waiting\<rparr>))"
| "Start s (RecvErr notifErr # sched) =
     (case errCh s of
        [] \<Rightarrow> Start s sched
      | err # waiting \<Rightarrow>
          (if \<not> IsPaused (monitor s)
           then logged ([SendErrorNotification err]
                          @ (case notifErr of Some ne \<Rightarrow> [LogError ne] | None \<Rightarrow> [])
                          @ [LogError err])
                  (Start (s\<lparr>errCh := waiting\<rparr>) sched)
           else Start (s\<lparr>errCh := waiting\<rparr>) sched))"
| "Start s (CallPause # sched) =
     logged (snd (Pause (monitor s))) (Start (s\<lparr>monitor := fst (Pause (monitor s))\<rparr>) sched)"
| "Start s (CallResume # sched) =
     logged (snd (Resume (monitor s))) (Start (s\<lparr>monitor := fst (Resume (monitor s))\<rparr>) sched)"


text \<open>
  What the specification calls the collected matches of a poll: for each fetched gift whose
  identifier is not in the cache, the validator's match if there is one, in catalog order.
\<close>

definition unseenMatches :: "giftValidatorImpl \<Rightarrow> GiftCacheImpl \<Rightarrow> StarGift list \<Rightarrow> GiftRequire list" where
  "unseenMatches v gc gifts =
     List.map_filter
       (\<lambda>gift. if HasGift gc (ID gift) then None
               else map_option (\<lambda>giftRequire. giftRequire\<lparr>Gift := gift\<rparr>) (IsEligible v gift))
       gifts"


section \<open>purchaseProcessor and giftBuyer\<close>

text \<open>
  One call of \<open>PurchaseGift\<close> talks to the remote API three times at most. \<open>remoteAPI\<close> holds
  what it is answered: whether the client is nil, the stars status (an error or the balance),
  the payment form that \<open>CreatePaymentForm\<close> returns (an error or a form of one of the kinds
  the type switch tells apart), and the answer to \<open>PaymentsSendStarsForm\<close>.
\<close>

record GiftResult =
  GiftID :: int64
  Success :: bool
  Err :: "error option"

datatype PaymentsPaymentFormClass =
    PaymentsPaymentFormStars int64
  | PaymentsPaymentFormStarGift int64
  | PaymentsPaymentForm int64
  | OtherPaymentForm string

record remoteAPI =
  apiIsNil :: bool
  starsStatus :: "error + int64"
  createPaymentForm :: "error + PaymentsPaymentFormClass"
  sendStarsFormReply :: "error option"

definition validatePurchase :: "remoteAPI \<Rightarrow> StarGift \<Rightarrow> bool" where
  "validatePurchase api gift =
     (if apiIsNil api then False
      else (case starsStatus api of
              Inl err \<Rightarrow> False
            | Inr amount \<Rightarrow> sint (Stars gift) \<le> sint amount))"

definition sendStarsForm :: "remoteAPI \<Rightarrow> int64 \<Rightarrow> error option" where
  "sendStarsForm api formID =
     (case sendStarsFormReply api of
        Some err \<Rightarrow> Some (Wrap err ''failed to send payment'')
      | None \<Rightarrow> None)"

definition PurchaseGift :: "remoteAPI \<Rightarrow> GiftRequire \<Rightarrow> error option" where
  "PurchaseGift api gift =
     (if \<not> validatePurchase api (Gift gift) then Some (New ''insufficient balance to buy gift'')
      else (case createPaymentForm api of
              Inl err \<Rightarrow> Some (Wrap err ''failed to send stars form'')
            | Inr (PaymentsPaymentFormStars formID) \<Rightarrow> sendStarsForm api formID
            | Inr (PaymentsPaymentFormStarGift formID) \<Rightarrow> sendStarsForm api formID
            | Inr (PaymentsPaymentForm formID) \<Rightarrow>
                Some (New ''regular payment form not supported for star gifts'')
            | Inr (OtherPaymentForm typeName) \<Rightarrow>
                Some (Wrap (New ''unexpected payment form type'')
                           (''unexpected payment form type: '' @ typeName))))"


text \<open>
  \<open>buyGiftWithRetry\<close> for one unit. The unit shares the counter with other goroutines, so the
  world of a unit gives, for attempt \<open>j\<close>: the context's error if the context is done at the
  check, the remote answers to that attempt's \<open>PurchaseGift\<close>, and the calls other goroutines
  make on the counter before this attempt's \<open>TryIncrement\<close>. The result is the trace of what the
  unit does (outcomes sent on the result channel, calls of the counter and of the pipeline,
  sleeps) and the counter afterwards. \<open>retryCount\<close> is a Go \<open>int\<close>; the loop index never passes
  it, so both are unbounded integers here.
\<close>

record giftBuyerImpl =
  retryCount :: int
  prioritization :: bool

record unitWorld =
  ctxErr :: "nat \<Rightarrow> error option"
  remote :: "nat \<Rightarrow> remoteAPI"
  others :: "nat \<Rightarrow> counterOp list"

datatype buyEvent =
    Send GiftResult
  | TryIncrementCalled bool
  | PurchaseGiftCalled
  | DecrementCalled
  | Sleep

definition failed :: "GiftRequire \<Rightarrow> error option \<Rightarrow> GiftResult" where
  "failed gift e = \<lparr>GiftID = ID (Gift gift), Success = False, Err = e\<rparr>"

function retryLoop :: "giftBuyerImpl \<Rightarrow> unitWorld \<Rightarrow> GiftRequire \<Rightarrow> nat \<Rightarrow> error option
    \<Rightarrow> atomicCounter \<Rightarrow> buyEvent list \<times> atomicCounter" where
  "retryLoop gm w gift j lastErr ac =
     (if int j < retryCount gm then
        (case ctxErr w j of
           Some e \<Rightarrow> ([Send (failed gift (Some e))], ac)
         | None \<Rightarrow>
             (let ac1 = snd (runOps (others w j) ac) in
              if \<not> fst (TryIncrement ac1)
              then ([TryIncrementCalled False,
                     Send (failed gift (Some (New ''max buy count reached'')))],
                    snd (TryIncrement ac1))
              else
                (case PurchaseGift (remote w j) gift of
                   Some err \<Rightarrow>
                     (let again = retryLoop gm w gift (Suc j) (Some err)
                                    (Decrement (snd (TryIncrement ac1)))
                      in ([TryIncrementCalled True, PurchaseGiftCalled, DecrementCalled,
                           Send (failed gift (Some err))]
                          @ (if int j < retryCount gm - 1 then [Sleep] else [])
                          @ fst again,
                          snd again))
                 | None \<Rightarrow>
                     ([TryIncrementCalled True, PurchaseGiftCalled,
                       Send \<lparr>GiftID = ID (Gift gift), Success = True, Err = None\<rparr>],
                      snd (TryIncrement ac1)))))
      else ([Send (failed gift lastErr)], ac))"
  by pat_completeness auto
termination
  by (relation "measure (\<lambda>(gm, w, gift, j, lastErr, ac). nat (retryCount gm - int j))") auto

declare retryLoop.simps [simp del]

definition buyGiftWithRetry :: "giftBuyerImpl \<Rightarrow> unitWorld \<Rightarrow> GiftRequire \<Rightarrow> atomicCounter
    \<Rightarrow> buyEvent list \<times> atomicCounter" where
  "buyGiftWithRetry gm w gift ac = retryLoop gm w gift 0 None ac"

fun outcomes :: "buyEvent list \<Rightarrow> GiftResult list" where
  "outcomes [] = []"
| "outcomes (Send r # evs) = r # outcomes evs"
| "outcomes (e # evs) = outcomes evs"

definition purchaseCalls :: "buyEvent list \<Rightarrow> nat" where
  "purchaseCalls evs = length (filter (\<lambda>e. e = PurchaseGiftCalled) evs)"


text \<open>
  The validation errors of the pipeline: a failed balance check and a payment form of an
  unsupported kind.
\<close>

definition validationFails :: "remoteAPI \<Rightarrow> GiftRequire \<Rightarrow> bool" where
  "validationFails api gift =
     (\<not> validatePurchase api (Gift gift)
      \<or> (case createPaymentForm api of
            Inr (PaymentsPaymentForm formID) \<Rightarrow> True
          | Inr (OtherPaymentForm typeName) \<Rightarrow> True
          | _ \<Rightarrow> False))"

fun validationError :: "error \<Rightarrow> bool" where
  "validationError (New msg) =
     (msg = ''insufficient balance to buy gift''
      \<or> msg = ''regular payment form not supported for star gifts'')"
| "validationError (Wrap e context) = (e = New ''unexpected payment form type'')"

definition failedAttempt :: "giftBuyerImpl \<Rightarrow> GiftRequire \<Rightarrow> error option \<Rightarrow> nat \<Rightarrow> buyEvent list" where
  "failedAttempt gm gift e j =
     [TryIncrementCalled True, PurchaseGiftCalled, DecrementCalled, Send (failed gift e)]
     @ (if int j < retryCount gm - 1 then [Sleep] else [])"


section \<open>rateLimiter\<close>

text \<open>
  The token channel is its capacity and the number of tokens buffered in it. Construction can
  panic, in \<open>time.NewTicker\<close> or in \<open>make\<close>; a panic is \<open>Inl\<close>. \<open>Acquire\<close> is one \<open>select\<close>:
  it returns a permit, returns the context's error, or blocks; when both cases are ready Go
  picks either, and \<open>preferToken\<close> says which. \<open>refillTick\<close> is one round of the refill
  goroutine, which runs only if the constructor started it.
\<close>

datatype panic = Panic string

record rateLimiterImpl =
  tokensCap :: nat
  tokensLen :: nat
  tickerPeriod :: int
  maxTokens :: int
  closed :: bool
  refilling :: bool

definition Second :: int where
  "Second = 1000000000"

definition Hour :: int where
  "Hour = 3600 * Second"

definition NewTicker :: "int \<Rightarrow> panic + int" where
  "NewTicker d = (if d \<le> 0 then Inl (Panic ''non-positive interval for NewTicker'') else Inr d)"

definition makeChan :: "int \<Rightarrow> panic + nat" where
  "makeChan n = (if n < 0 then Inl (Panic ''makechan: size out of range'') else Inr (nat n))"

definition NewRateLimiter :: "int \<Rightarrow> panic + rateLimiterImpl" where
  "NewRateLimiter rps =
     (case (if 0 < rps then NewTicker (Second div rps) else NewTicker Hour) of
        Inl p \<Rightarrow> Inl p
      | Inr ticker \<Rightarrow>
          (case makeChan rps of
             Inl p \<Rightarrow> Inl p
           | Inr capacity \<Rightarrow>
               Inr \<lparr>tokensCap = capacity, tokensLen = nat rps, tickerPeriod = ticker,
                    maxTokens = rps, closed = False, refilling = (0 < rps)\<rparr>))"

datatype acquired = Permit | CtxError error | Blocks

definition Acquire :: "rateLimiterImpl \<Rightarrow> error option \<Rightarrow> bool \<Rightarrow> acquired \<times> rateLimiterImpl" where
  "Acquire rl ctxDone preferToken =
     (if 0 < tokensLen rl \<and> (ctxDone = None \<or> preferToken)
      then (Permit, rl\<lparr>tokensLen := tokensLen rl - 1\<rparr>)
      else (case ctxDone of
              Some err \<Rightarrow> (CtxError err, rl)
            | None \<Rightarrow> (Blocks, rl)))"

definition refillTick :: "rateLimiterImpl \<Rightarrow> rateLimiterImpl" where
  "refillTick rl =
     (if \<not> refilling rl then rl
      else if closed rl then rl\<lparr>refilling := False\<rparr>
      else if tokensLen rl < tokensCap rl then rl\<lparr>tokensLen := tokensLen rl + 1\<rparr>
      else rl)"

definition Close :: "rateLimiterImpl \<Rightarrow> rateLimiterImpl" where
  "Close rl = (if \<not> closed rl then rl\<lparr>closed := True\<rparr> else rl)"

fun ticks :: "nat \<Rightarrow> rateLimiterImpl \<Rightarrow> rateLimiterImpl" where
  "ticks 0 rl = rl"
| "ticks (Suc n) rl = ticks n (refillTick rl)"


section \<open>Example data\<close>

definition limitedGift :: "int64 \<Rightarrow> int64 \<Rightarrow> StarGift" where
  "limitedGift i price =
     \<lparr>ID = i, Stars = price, Limited = True, SoldOut = False, RequirePremium = False,
      AvailabilityRemains = Some 10, AvailabilityTotal = Some 80, ReleasedBy = None\<rparr>"

definition unlimitedGift :: "int64 \<Rightarrow> int64 \<Rightarrow> StarGift" where
  "unlimitedGift i price =
     \<lparr>ID = i, Stars = price, Limited = False, SoldOut = False, RequirePremium = False,
      AvailabilityRemains = None, AvailabilityTotal = None, ReleasedBy = None\<rparr>"

definition criterion :: "int64 \<Rightarrow> int64 \<Rightarrow> int64 \<Rightarrow> int64 \<Rightarrow> Criterias" where
  "criterion lo hi supply n =
     \<lparr>MinPrice = lo, MaxPrice = hi, TotalSupply = supply, Count = n,
      ReceiverType_c = [n], Hide_c = False\<rparr>"

definition exampleValidator :: "bool \<Rightarrow> int64 \<Rightarrow> giftValidatorImpl" where
  "exampleValidator lim cap =
     \<lparr>limitedStatus = lim, releaseBy = False, premium = False,
      criteria = [criterion 200 300 100 9, criterion 10 100 100 3, criterion 0 1000 1000 7],
      totalStarCap = cap, testMode = False\<rparr>"

definition freshMonitor :: giftMonitorImpl where
  "freshMonitor = NewGiftMonitor [] (exampleValidator True 10000) False"

definition brokeWorld :: unitWorld where
  "brokeWorld =
     \<lparr>ctxErr = (\<lambda>j. None),
      remote = (\<lambda>j. \<lparr>apiIsNil = False, starsStatus = Inr 0,
                       createPaymentForm = Inr (PaymentsPaymentFormStars 1),
                       sendStarsFormReply = None\<rparr>),
      others = (\<lambda>j. [])\<rparr>"

definition exampleRequire :: GiftRequire where
  "exampleRequire = \<lparr>Gift = limitedGift 1 50, ReceiverType = [3], CountForBuy = 3, Hide = False\<rparr>"

definition crowdedWorld :: unitWorld where
  "crowdedWorld = brokeWorld\<lparr>others := (\<lambda>j. if j = 1 then replicate 9 CallTryIncrement else [])\<rparr>"

definition retrying :: "int \<Rightarrow> giftBuyerImpl" where
  "retrying n = \<lparr>retryCount = n, prioritization = False\<rparr>"

definition insufficientBalance :: GiftResult where
  "insufficientBalance =
     \<lparr>GiftID = 1, Success = False, Err = Some (New ''insufficient balance to buy gift'')\<rparr>"

definition noFaults :: ioFaults where
  "noFaults = \<lparr>readFault = None, marshalFault = None, writeFault = None\<rparr>"

definition savedOne :: "string \<rightharpoonup> CachedGift" where
  "savedOne = [''1'' \<mapsto> \<lparr>ID_c = 1, Stars_c = 40\<rparr>]"


section \<open>The budget counter never passes its ceiling\<close>

lemma TryIncrement_eq:
  "TryIncrement ac =
     (if sint (count ac) < sint (max_c ac) then (True, ac\<lparr>count := count ac + 1\<rparr>) else (False, ac))"
  by (subst TryIncrement.simps) (simp add: LoadInt64_def CompareAndSwapInt64_def Let_def)

lemma runOps_inc:
  "runOps (CallTryIncrement # ops) ac =
     (fst (TryIncrement ac) # fst (runOps ops (snd (TryIncrement ac))),
      snd (runOps ops (snd (TryIncrement ac))))"
  by (simp add: case_prod_beta)

text \<open>Below the ceiling an increment cannot wrap; above the least value a decrement cannot.\<close>

lemma sint_succ_below:
  fixes x m :: int64
  assumes "sint x < sint m"
  shows "sint (x + 1) = sint x + 1"
proof -
  have "sint m < 2 ^ 63" using sint_lt [of m] by simp
  moreover have "- (2 ^ 63) \<le> sint x" using sint_ge [of x] by simp
  ultimately have "- (2 ^ 63) \<le> sint x + 1" "sint x + 1 < 2 ^ 63" using assms by linarith+
  then show ?thesis
    by (simp add: sint_word_ariths signed_take_bit_int_eq_self)
qed

lemma sint_pred_above:
  fixes x :: int64
  assumes "- (2 ^ 63) < sint x"
  shows "sint (x - 1) = sint x - 1"
proof -
  have "sint x < 2 ^ 63" using sint_lt [of x] by simp
  with assms have "- (2 ^ 63) \<le> sint x - 1" "sint x - 1 < 2 ^ 63" by linarith+
  then show ?thesis
    by (simp add: sint_word_ariths signed_take_bit_int_eq_self)
qed

lemma runOps_replicate_inc:
  assumes "0 \<le> sint (count ac)" "sint (count ac) \<le> sint (max_c ac)"
  shows "successes (fst (runOps (replicate n CallTryIncrement) ac))
           = min n (nat (sint (max_c ac) - sint (count ac)))
       \<and> sint (count (snd (runOps (replicate n CallTryIncrement) ac)))
           = sint (count ac) + int (min n (nat (sint (max_c ac) - sint (count ac))))
       \<and> max_c (snd (runOps (replicate n CallTryIncrement) ac)) = max_c ac"
  using assms
proof (induction n arbitrary: ac)
  case 0
  then show ?case by (simp add: successes_def)
next
  case (Suc n)
  show ?case
  proof (cases "sint (count ac) < sint (max_c ac)")
    case True
    let ?ac1 = "ac\<lparr>count := count ac + 1\<rparr>"
    have s: "sint (count ?ac1) = sint (count ac) + 1"
      using True by (simp add: sint_succ_below)
    have "0 \<le> sint (count ?ac1)" "sint (count ?ac1) \<le> sint (max_c ?ac1)"
      using Suc.prems True s by simp_all
    moreover have "nat (sint (max_c ac) - sint (count ac))
                     = Suc (nat (sint (max_c ac) - (sint (count ac) + 1)))"
      using True by linarith
    ultimately show ?thesis using Suc.IH [of ?ac1] s True
      by (simp add: runOps_inc TryIncrement_eq successes_def del: runOps.simps)
  next
    case False
    with Suc.prems have eq: "sint (count ac) = sint (max_c ac)" by simp
    from Suc.IH [OF Suc.prems] eq False show ?thesis
      by (simp add: runOps_inc TryIncrement_eq successes_def del: runOps.simps)
  qed
qed

text \<open>
  The invariant of a run: the value stays at or below the ceiling as long as the decrements
  still to come cannot take it below the least \<open>int64\<close>.
\<close>

lemma runOps_bounded:
  assumes "sint (count ac) \<le> sint (max_c ac)"
      and "int (decrements ops) - 2 ^ 63 \<le> sint (count ac)"
  shows "sint (count (snd (runOps ops ac))) \<le> sint (max_c ac)
       \<and> max_c (snd (runOps ops ac)) = max_c ac"
  using assms
proof (induction ops ac rule: runOps.induct)
  case (1 ac)
  then show ?case by simp
next
  case (2 ops ac)
  show ?case
  proof (cases "sint (count ac) < sint (max_c ac)")
    case True
    let ?ac1 = "ac\<lparr>count := count ac + 1\<rparr>"
    have t: "TryIncrement ac = (True, ?ac1)" using True by (simp add: TryIncrement_eq)
    have s: "sint (count ?ac1) = sint (count ac) + 1"
      using True by (simp add: sint_succ_below)
    have "sint (count ?ac1) \<le> sint (max_c ?ac1)" using True s by simp
    moreover have "int (decrements ops) - 2 ^ 63 \<le> sint (count ?ac1)"
      using "2.prems"(2) s by (simp add: decrements_def)
    ultimately have "sint (count (snd (runOps ops ?ac1))) \<le> sint (max_c ?ac1)
       \<and> max_c (snd (runOps ops ?ac1)) = max_c ?ac1"
      using "2.IH" [OF t [symmetric] refl] by blast
    then show ?thesis using t by (simp add: runOps_inc del: runOps.simps)
  next
    case False
    have t: "TryIncrement ac = (False, ac)" using False by (simp add: TryIncrement_eq)
    have "int (decrements ops) - 2 ^ 63 \<le> sint (count ac)"
      using "2.prems"(2) by (simp add: decrements_def)
    with "2.IH" [OF t [symmetric] refl] "2.prems"(1) t show ?thesis
      by (simp add: runOps_inc del: runOps.simps)
  qed
next
  case (3 ops ac)
  have low: "- (2 ^ 63) < sint (count ac)"
    using "3.prems"(2) by (simp add: decrements_def)
  have s: "sint (count (Decrement ac)) = sint (count ac) - 1"
    using sint_pred_above [OF low] by (simp add: Decrement_def AddInt64_def)
  have "sint (count (Decrement ac)) \<le> sint (max_c (Decrement ac))"
    using "3.prems"(1) s by (simp add: Decrement_def)
  moreover have "int (decrements ops) - 2 ^ 63 \<le> sint (count (Decrement ac))"
    using "3.prems"(2) s by (simp add: decrements_def)
  ultimately show ?case using "3.IH" by (simp add: Decrement_def)
qed

text \<open>
  The ceiling also holds at the grain of the atomic primitives, for every schedule: a
  compare-and-swap succeeds only on the value its goroutine loaded, and that value was below
  the ceiling.
\<close>

lemma interleave_bounded:
  assumes "sint (cell s) \<le> sint (ceiling s)"
      and "\<forall>g cur. current s g = Some cur \<longrightarrow> sint cur < sint (ceiling s)"
      and "int (addSteps steps) - 2 ^ 63 \<le> sint (cell s)"
  shows "sint (cell (interleave steps s)) \<le> sint (ceiling s)"
  using assms
proof (induction steps arbitrary: s)
  case Nil
  then show ?case by simp
next
  case (Cons a steps)
  let ?s' = "runStep a s"
  have keep: "ceiling ?s' = ceiling s"
    by (cases a) (auto simp: Let_def split: option.splits)
  have locals: "\<forall>g cur. current ?s' g = Some cur \<longrightarrow> sint cur < sint (ceiling s)"
    using Cons.prems(2) by (cases a) (auto simp: Let_def LoadInt64_def split: option.splits if_splits)
  have up: "sint (cell ?s') \<le> sint (ceiling s)"
  proof (cases a)
    case (LoadStep g)
    then show ?thesis using Cons.prems(1) by (simp add: Let_def)
  next
    case (SwapStep g)
    show ?thesis
    proof (cases "current s g")
      case None
      then show ?thesis using SwapStep Cons.prems(1) by simp
    next
      case (Some cur)
      then have below: "sint cur < sint (ceiling s)" using Cons.prems(2) by blast
      show ?thesis
      proof (cases "cell s = cur")
        case True
        have "sint (cur + 1) = sint cur + 1" using below by (rule sint_succ_below)
        with below True Some SwapStep show ?thesis by (simp add: CompareAndSwapInt64_def)
      next
        case False
        with Some SwapStep Cons.prems(1) show ?thesis by (simp add: CompareAndSwapInt64_def)
      qed
    qed
  next
    case AddStep
    with Cons.prems(3) have "- (2 ^ 63) < sint (cell s)" by (simp add: addSteps_def)
    then have "sint (cell s - 1) = sint (cell s) - 1" by (rule sint_pred_above)
    with AddStep Cons.prems(1) show ?thesis by (simp add: AddInt64_def)
  qed
  have low: "int (addSteps steps) - 2 ^ 63 \<le> sint (cell ?s')"
  proof (cases a)
    case (LoadStep g)
    then show ?thesis using Cons.prems(3) by (simp add: Let_def addSteps_def)
  next
    case (SwapStep g)
    show ?thesis
    proof (cases "current s g")
      case None
      then show ?thesis using SwapStep Cons.prems(3) by (simp add: addSteps_def)
    next
      case (Some cur)
      then have below: "sint cur < sint (ceiling s)" using Cons.prems(2) by blast
      show ?thesis
      proof (cases "cell s = cur")
        case True
        have "sint (cur + 1) = sint cur + 1" using below by (rule sint_succ_below)
        with True Some SwapStep Cons.prems(3) show ?thesis
          by (simp add: CompareAndSwapInt64_def addSteps_def)
      next
        case False
        with Some SwapStep Cons.prems(3) show ?thesis
          by (simp add: CompareAndSwapInt64_def addSteps_def)
      qed
    qed
  next
    case AddStep
    with Cons.prems(3) have "- (2 ^ 63) < sint (cell s)" by (simp add: addSteps_def)
    then have "sint (cell s - 1) = sint (cell s) - 1" by (rule sint_pred_above)
    with AddStep Cons.prems(3) show ?thesis by (simp add: AddInt64_def addSteps_def)
  qed
  from Cons.IH [of ?s'] up locals low keep show ?case by simp
qed

lemma runOps_replicate_dec:
  "runOps (replicate n CallDecrement) ac = ([], ac\<lparr>count := count ac - of_nat n\<rparr>)"
  by (induction n arbitrary: ac) (simp_all add: Decrement_def AddInt64_def)

text \<open>
  C1, as the code has it. \<open>TryIncrement\<close> answers true and adds one exactly when the value is
  below the ceiling, and otherwise answers false and leaves the counter as it is. For a
  counter made with a ceiling \<open>C \<ge> 0\<close>: of \<open>N\<close> calls of \<open>TryIncrement\<close> in a row exactly
  \<open>min N C\<close> answer true; and after every sequence of \<open>TryIncrement\<close> and \<open>Decrement\<close> calls
  with at most \<open>2 ^ 63\<close> calls of \<open>Decrement\<close> the value is at most \<open>C\<close>.
\<close>

theorem atomicCounter_ceiling:
  assumes "0 \<le> sint C" and "decrements ops \<le> 2 ^ 63"
  shows "TryIncrement ac =
           (if sint (count ac) < sint (max_c ac) then (True, ac\<lparr>count := count ac + 1\<rparr>)
            else (False, ac))
       \<and> (if sint (Get ac) < sint (GetMax ac)
            then sint (Get (snd (TryIncrement ac))) = sint (Get ac) + 1
            else Get (snd (TryIncrement ac)) = Get ac)
       \<and> successes (fst (runOps (replicate N CallTryIncrement) (NewAtomicCounter C)))
           = min N (nat (sint C))
       \<and> sint (Get (snd (runOps ops (NewAtomicCounter C)))) \<le> sint C"
proof (intro conjI)
  show "TryIncrement ac =
           (if sint (count ac) < sint (max_c ac) then (True, ac\<lparr>count := count ac + 1\<rparr>)
            else (False, ac))"
    by (rule TryIncrement_eq)
  show "if sint (Get ac) < sint (GetMax ac)
        then sint (Get (snd (TryIncrement ac))) = sint (Get ac) + 1
        else Get (snd (TryIncrement ac)) = Get ac"
    by (simp add: TryIncrement_eq Get_def GetMax_def LoadInt64_def sint_succ_below)
  show "successes (fst (runOps (replicate N CallTryIncrement) (NewAtomicCounter C)))
           = min N (nat (sint C))"
    using runOps_replicate_inc [of "NewAtomicCounter C" N] assms(1)
    by (simp add: NewAtomicCounter_def)
  have "int (decrements ops) \<le> 2 ^ 63"
    using assms(2) by (metis of_nat_le_iff of_nat_numeral of_nat_power)
  then show "sint (Get (snd (runOps ops (NewAtomicCounter C)))) \<le> sint C"
    using runOps_bounded [of "NewAtomicCounter C" ops] assms(1)
    by (simp add: NewAtomicCounter_def Get_def LoadInt64_def)
qed

theorem atomicCounter_ceiling_witness:
  "(0::int) \<le> sint (2 :: int64)
   \<and> decrements [CallTryIncrement, CallTryIncrement, CallDecrement, CallTryIncrement, CallTryIncrement] \<le> 2 ^ 63
   \<and> TryIncrement (NewAtomicCounter 2) = (True, \<lparr>count = 1, max_c = 2\<rparr>)
   \<and> TryIncrement \<lparr>count = 2, max_c = 2\<rparr> = (False, \<lparr>count = 2, max_c = 2\<rparr>)
   \<and> successes (fst (runOps (replicate 3 CallTryIncrement) (NewAtomicCounter 2))) = 2
   \<and> sint (Get (snd (runOps [CallTryIncrement, CallTryIncrement, CallDecrement, CallTryIncrement,
                               CallTryIncrement] (NewAtomicCounter 2)))) \<le> sint (2 :: int64)"
proof -
  have h1: "(0::int) \<le> sint (2 :: int64)" by simp
  have h2: "decrements [CallTryIncrement, CallTryIncrement, CallDecrement, CallTryIncrement,
                        CallTryIncrement] \<le> 2 ^ 63"
    by (simp add: decrements_def)
  show ?thesis
    using h1 h2
      atomicCounter_ceiling [OF h1 h2, of "NewAtomicCounter 2" 3]
      atomicCounter_ceiling [OF h1 h2, of "\<lparr>count = 2, max_c = 2\<rparr>" 3]
    by (simp add: NewAtomicCounter_def)
qed

text \<open>
  C1 as stated fails for the last clause: the value is an \<open>int64\<close>, and \<open>Decrement\<close> is not
  guarded. On a fresh counter with ceiling 0, \<open>2 ^ 63 + 1\<close> calls of \<open>Decrement\<close> wrap the
  value from the least \<open>int64\<close> to the greatest, which is above the ceiling.
\<close>

theorem atomicCounter_wraps_above_ceiling:
  "runOps (replicate (2 ^ 63 + 1) CallDecrement) (NewAtomicCounter 0)
     = ([], \<lparr>count = 9223372036854775807, max_c = 0\<rparr>)
   \<and> sint (GetMax \<lparr>count = 9223372036854775807, max_c = 0\<rparr>)
       < sint (Get \<lparr>count = 9223372036854775807, max_c = 0\<rparr>)"
  by (simp add: runOps_replicate_dec NewAtomicCounter_def Get_def GetMax_def LoadInt64_def)

section \<open>Eligibility: the first criterion that holds wins\<close>

lemma priceValid_iff:
  "priceValid c gift \<longleftrightarrow>
     sint (MinPrice c) \<le> sint (Stars gift) \<and> sint (Stars gift) \<le> sint (MaxPrice c)"
  by (simp add: priceValid_def GetStars_def Let_def)

lemma matchCriteria_first:
  assumes "\<forall>c' \<in> set pre. \<not> (priceValid c' gift \<and> supplyValid gv c' gift \<and> starCapValidation gv gift)"
      and "priceValid c gift \<and> supplyValid gv c gift \<and> starCapValidation gv gift"
  shows "matchCriteria gv gift (pre @ c # post) =
           Some \<lparr>Gift = gift, ReceiverType = ReceiverType_c c, CountForBuy = Count c, Hide = Hide_c c\<rparr>"
  using assms by (induction pre) auto

lemma matchCriteria_none:
  assumes "\<forall>c \<in> set cs. \<not> (priceValid c gift \<and> supplyValid gv c gift \<and> starCapValidation gv gift)"
  shows "matchCriteria gv gift cs = None"
  using assms by (induction cs) auto

lemma IsEligible_gates:
  assumes "\<not> SoldOut gift"
      and "Limited gift = limitedStatus gv"
      and "ReleasedBy gift = None \<or> releaseBy gv"
      and "RequirePremium gift \<or> \<not> premium gv"
  shows "IsEligible gv gift = matchCriteria gv gift (criteria gv)"
  using assms
  by (auto simp: IsEligible_def releaseByValidation_def premiumValidation_def
      GetReleasedBy_def GetRequirePremium_def)

text \<open>
  C3. Let a gift be not sold out, with the configured limited status, and past the releaser
  and premium checks. If the configured criteria are \<open>pre @ c # post\<close>, no criterion of
  \<open>pre\<close> has the price in its inclusive range together with a valid supply and spend cap,
  and \<open>c\<close> has, then \<open>IsEligible\<close> returns the match with the quantity, receiver set and hide
  flag of \<open>c\<close>, whatever \<open>post\<close> holds. If no criterion passes, it returns no match.
\<close>

theorem IsEligible_first_match:
  assumes "\<not> SoldOut gift"
      and "Limited gift = limitedStatus gv"
      and "ReleasedBy gift = None \<or> releaseBy gv"
      and "RequirePremium gift \<or> \<not> premium gv"
  shows "(criteria gv = pre @ c # post
          \<and> (\<forall>c' \<in> set pre. \<not> (sint (MinPrice c') \<le> sint (Stars gift)
                                  \<and> sint (Stars gift) \<le> sint (MaxPrice c')
                                  \<and> supplyValid gv c' gift \<and> starCapValidation gv gift))
          \<and> sint (MinPrice c) \<le> sint (Stars gift) \<and> sint (Stars gift) \<le> sint (MaxPrice c)
          \<and> supplyValid gv c gift \<and> starCapValidation gv gift
          \<longrightarrow> IsEligible gv gift =
                Some \<lparr>Gift = gift, ReceiverType = ReceiverType_c c, CountForBuy = Count c,
                      Hide = Hide_c c\<rparr>)
       \<and> ((\<forall>c' \<in> set (criteria gv). \<not> (sint (MinPrice c') \<le> sint (Stars gift)
                                  \<and> sint (Stars gift) \<le> sint (MaxPrice c')
                                  \<and> supplyValid gv c' gift \<and> starCapValidation gv gift))
          \<longrightarrow> IsEligible gv gift = None)"
proof (intro conjI impI)
  assume h: "criteria gv = pre @ c # post
          \<and> (\<forall>c' \<in> set pre. \<not> (sint (MinPrice c') \<le> sint (Stars gift)
                                  \<and> sint (Stars gift) \<le> sint (MaxPrice c')
                                  \<and> supplyValid gv c' gift \<and> starCapValidation gv gift))
          \<and> sint (MinPrice c) \<le> sint (Stars gift) \<and> sint (Stars gift) \<le> sint (MaxPrice c)
          \<and> supplyValid gv c gift \<and> starCapValidation gv gift"
  then have "\<forall>c' \<in> set pre. \<not> (priceValid c' gift \<and> supplyValid gv c' gift \<and> starCapValidation gv gift)"
    and "priceValid c gift \<and> supplyValid gv c gift \<and> starCapValidation gv gift"
    by (auto simp: priceValid_iff)
  from matchCriteria_first [OF this] h
  show "IsEligible gv gift =
          Some \<lparr>Gift = gift, ReceiverType = ReceiverType_c c, CountForBuy = Count c, Hide = Hide_c c\<rparr>"
    by (simp add: IsEligible_gates [OF assms])
next
  assume "\<forall>c' \<in> set (criteria gv). \<not> (sint (MinPrice c') \<le> sint (Stars gift)
                                  \<and> sint (Stars gift) \<le> sint (MaxPrice c')
                                  \<and> supplyValid gv c' gift \<and> starCapValidation gv gift)"
  then have "\<forall>c' \<in> set (criteria gv).
      \<not> (priceValid c' gift \<and> supplyValid gv c' gift \<and> starCapValidation gv gift)"
    by (simp add: priceValid_iff)
  from matchCriteria_none [OF this] show "IsEligible gv gift = None"
    by (simp add: IsEligible_gates [OF assms])
qed


lemmas example_defs = exampleValidator_def limitedGift_def unlimitedGift_def criterion_def

lemmas validator_defs = supplyValid_def starCapValidation_def GetStars_def
  GetAvailabilityRemains_def GetAvailabilityTotal_def

theorem IsEligible_first_match_witness:
  "IsEligible (exampleValidator True 10000) (limitedGift 1 50)
     = Some \<lparr>Gift = limitedGift 1 50, ReceiverType = [3], CountForBuy = 3, Hide = False\<rparr>
   \<and> IsEligible (exampleValidator True 10000) (limitedGift 2 5000) = None"
proof -
  let ?gv = "exampleValidator True 10000"
  have a: "\<not> SoldOut (limitedGift i p)" "Limited (limitedGift i p) = limitedStatus ?gv"
    "ReleasedBy (limitedGift i p) = None \<or> releaseBy ?gv"
    "RequirePremium (limitedGift i p) \<or> \<not> premium ?gv" for i p
    by (simp_all add: example_defs)
  show ?thesis
    using IsEligible_first_match [OF a [of 1 50], where pre = "[criterion 200 300 100 9]"
        and c = "criterion 10 100 100 3" and post = "[criterion 0 1000 1000 7]"]
      IsEligible_first_match [OF a [of 2 5000], where pre = "[]"
        and c = "criterion 200 300 100 9" and post = "[]"]
    by (simp add: example_defs validator_defs)
qed


section \<open>The spend cap and gifts without a total supply\<close>

text \<open>
  C10. With test mode off, a gift that has no availability total passes the spend-cap check
  for every configured cap that is not negative: the getter reads the missing total as 0, so
  the projected spend is \<open>price * 0 = 0\<close>, whatever the price.
\<close>
theorem starCap_passes_without_total:
  assumes "AvailabilityTotal gift = None" and "\<not> testMode gv" and "0 \<le> sint (totalStarCap gv)"
  shows "starCapValidation gv gift
       \<and> sint (GetStars gift * fst (GetAvailabilityTotal gift)) = 0"
  using assms by (simp add: starCapValidation_def GetAvailabilityTotal_def)

theorem starCap_passes_without_total_witness:
  "AvailabilityTotal (unlimitedGift 7 100) = None
   \<and> \<not> testMode (exampleValidator False 5)
   \<and> 0 \<le> sint (totalStarCap (exampleValidator False 5))
   \<and> sint (totalStarCap (exampleValidator False 5)) < sint (Stars (unlimitedGift 7 100))
   \<and> starCapValidation (exampleValidator False 5) (unlimitedGift 7 100)"
proof -
  have h: "AvailabilityTotal (unlimitedGift 7 100) = None" "\<not> testMode (exampleValidator False 5)"
    "0 \<le> sint (totalStarCap (exampleValidator False 5))"
    by (simp_all add: example_defs)
  show ?thesis
    using h starCap_passes_without_total [OF h]
    by (simp add: example_defs)
qed


section \<open>The first poll only seeds the cache\<close>

lemma HasGift_SetGift: "HasGift (SetGift gc i gift) j \<longleftrightarrow> j = i \<or> HasGift gc j"
  by (simp add: HasGift_def SetGift_def update_conv')

lemma GetGift_SetGift: "GetGift (SetGift gc i gift) j = (if j = i then Some gift else GetGift gc j)"
  by (simp add: GetGift_def SetGift_def update_conv')

lemma scanGifts_step:
  "scanGifts v (gift # gifts) gc =
     (if HasGift gc (ID gift) then scanGifts v gifts gc
      else (case IsEligible v gift of
              Some giftRequire \<Rightarrow>
                (giftRequire\<lparr>Gift := gift\<rparr> # fst (scanGifts v gifts (SetGift gc (ID gift) gift)),
                 fst (snd (scanGifts v gifts (SetGift gc (ID gift) gift))),
                 LogInfo (''gift id '' @ FormatInt (ID gift) @ '' is valid'')
                   # snd (snd (scanGifts v gifts (SetGift gc (ID gift) gift))))
            | None \<Rightarrow> scanGifts v gifts (SetGift gc (ID gift) gift)))"
  by (simp add: case_prod_beta split: option.splits)

lemma scanGifts_keeps:
  "HasGift gc i \<Longrightarrow> HasGift (fst (snd (scanGifts v gifts gc))) i"
  by (induction gifts arbitrary: gc)
     (auto simp: scanGifts_step HasGift_SetGift simp del: scanGifts.simps(2) split: option.splits)

lemma scanGifts_caches_all:
  "gift \<in> set gifts \<Longrightarrow> HasGift (fst (snd (scanGifts v gifts gc))) (ID gift)"
  by (induction gifts arbitrary: gc)
     (auto simp: scanGifts_step HasGift_SetGift scanGifts_keeps simp del: scanGifts.simps(2)
           split: option.splits)

lemma scanGifts_keeps_value:
  "GetGift gc i = Some gift \<Longrightarrow> GetGift (fst (snd (scanGifts v gifts gc))) i = Some gift"
proof (induction gifts arbitrary: gc)
  case Nil
  then show ?case by simp
next
  case (Cons g gifts)
  show ?case
  proof (cases "HasGift gc (ID g)")
    case True
    then show ?thesis using Cons by (simp add: scanGifts_step del: scanGifts.simps(2))
  next
    case False
    with Cons.prems have "ID g \<noteq> i" by (auto simp: HasGift_def GetGift_def)
    then have "GetGift (SetGift gc (ID g) g) i = Some gift"
      using Cons.prems by (simp add: GetGift_SetGift)
    from Cons.IH [OF this] False show ?thesis
      by (simp add: scanGifts_step del: scanGifts.simps(2) split: option.splits)
  qed
qed

lemma scanGifts_stores_new:
  "gift \<in> set gifts \<Longrightarrow> distinct (map ID gifts) \<Longrightarrow> \<not> HasGift gc (ID gift)
     \<Longrightarrow> GetGift (fst (snd (scanGifts v gifts gc))) (ID gift) = Some gift"
proof (induction gifts arbitrary: gc)
  case Nil
  then show ?case by simp
next
  case (Cons g gifts)
  show ?case
  proof (cases "gift = g")
    case True
    have "GetGift (SetGift gc (ID g) g) (ID g) = Some g" by (simp add: GetGift_SetGift)
    from scanGifts_keeps_value [OF this] Cons.prems(3) True show ?thesis
      by (simp add: scanGifts_step del: scanGifts.simps(2) split: option.splits)
  next
    case False
    with Cons.prems have in_rest: "gift \<in> set gifts" and d: "distinct (map ID gifts)"
      and fresh: "ID g \<notin> ID ` set gifts" by auto
    from in_rest fresh have ne: "ID gift \<noteq> ID g" by (metis imageI)
    show ?thesis
    proof (cases "HasGift gc (ID g)")
      case True
      with Cons.IH [OF in_rest d Cons.prems(3)] show ?thesis
        by (simp add: scanGifts_step del: scanGifts.simps(2))
    next
      case False
      have "\<not> HasGift (SetGift gc (ID g) g) (ID gift)"
        using ne Cons.prems(3) by (simp add: HasGift_SetGift)
      from Cons.IH [OF in_rest d this] False show ?thesis
        by (simp add: scanGifts_step del: scanGifts.simps(2) split: option.splits)
    qed
  qed
qed

lemma scanGifts_matches_unseen:
  "r \<in> set (fst (scanGifts v gifts gc)) \<Longrightarrow> \<not> HasGift gc (ID (Gift r))"
proof (induction gifts arbitrary: gc)
  case Nil
  then show ?case by simp
next
  case (Cons g gifts)
  show ?case
  proof (cases "HasGift gc (ID g)")
    case True
    with Cons show ?thesis by (simp add: scanGifts_step del: scanGifts.simps(2))
  next
    case False
    have rest: "r \<in> set (fst (scanGifts v gifts (SetGift gc (ID g) g))) \<Longrightarrow> \<not> HasGift gc (ID (Gift r))"
      using Cons.IH [of "SetGift gc (ID g) g"] by (simp add: HasGift_SetGift)
    from Cons.prems False rest show ?thesis
      by (auto simp: scanGifts_step simp del: scanGifts.simps(2) split: option.splits)
  qed
qed

lemma unseenMatches_Nil: "unseenMatches v gc [] = []"
  by (simp add: unseenMatches_def map_filter_simps)

lemma unseenMatches_Cons:
  "unseenMatches v gc (gift # gifts) =
     (if HasGift gc (ID gift) then unseenMatches v gc gifts
      else (case IsEligible v gift of
              Some giftRequire \<Rightarrow> giftRequire\<lparr>Gift := gift\<rparr> # unseenMatches v gc gifts
            | None \<Rightarrow> unseenMatches v gc gifts))"
  by (simp add: unseenMatches_def map_filter_simps split: option.splits)

lemma unseenMatches_SetGift:
  "i \<notin> ID ` set gifts \<Longrightarrow> unseenMatches v (SetGift gc i gift) gifts = unseenMatches v gc gifts"
  by (induction gifts) (auto simp: unseenMatches_Nil unseenMatches_Cons HasGift_SetGift split: option.splits)

lemma scanGifts_distinct:
  "distinct (map ID gifts) \<Longrightarrow> fst (scanGifts v gifts gc) = unseenMatches v gc gifts"
proof (induction gifts arbitrary: gc)
  case Nil
  then show ?case by (simp add: unseenMatches_Nil)
next
  case (Cons g gifts)
  then have d: "distinct (map ID gifts)" and fresh: "ID g \<notin> ID ` set gifts" by auto
  show ?case
    using Cons.IH [OF d] unseenMatches_SetGift [OF fresh]
    by (simp add: scanGifts_step unseenMatches_Cons del: scanGifts.simps(2) split: option.splits)
qed

lemma checkForNewGifts_first:
  assumes "firstRun gm" and "\<not> testMode_m gm"
  shows "checkForNewGifts gm (Inr gifts) =
           (Inl firstRunError, snd (snd (scanGifts (validator gm) gifts (cache gm))),
            gm\<lparr>cache := fst (snd (scanGifts (validator gm) gifts (cache gm))), firstRun := False\<rparr>)"
  using assms by (simp add: checkForNewGifts_def case_prod_beta)

lemma checkForNewGifts_later:
  assumes "\<not> firstRun gm"
  shows "checkForNewGifts gm (Inr gifts) =
           (Inr (fst (scanGifts (validator gm) gifts (cache gm))),
            snd (snd (scanGifts (validator gm) gifts (cache gm))),
            gm\<lparr>cache := fst (snd (scanGifts (validator gm) gifts (cache gm)))\<rparr>)"
  using assms by (simp add: checkForNewGifts_def case_prod_beta)

lemma checkForNewGifts_state:
  "validator (snd (snd (checkForNewGifts gm fetched))) = validator gm
   \<and> testMode_m (snd (snd (checkForNewGifts gm fetched))) = testMode_m gm
   \<and> (\<not> firstRun gm \<longrightarrow> \<not> firstRun (snd (snd (checkForNewGifts gm fetched))))
   \<and> (HasGift (cache gm) i \<longrightarrow> HasGift (cache (snd (snd (checkForNewGifts gm fetched)))) i)"
  by (cases fetched) (auto simp: checkForNewGifts_def case_prod_beta Let_def scanGifts_keeps)

lemma pollAll_state:
  "validator (pollAll gm polls) = validator gm
   \<and> (\<not> firstRun gm \<longrightarrow> \<not> firstRun (pollAll gm polls))
   \<and> (HasGift (cache gm) i \<longrightarrow> HasGift (cache (pollAll gm polls)) i)"
proof (induction polls arbitrary: gm)
  case Nil
  then show ?case by simp
next
  case (Cons fetched polls)
  show ?case
    using Cons.IH [of "snd (snd (checkForNewGifts gm fetched))"] checkForNewGifts_state [of gm fetched i]
    by simp
qed

text \<open>
  C4. Let \<open>firstRun\<close> be set and test mode be off, and let the catalog answer with \<open>gifts\<close>.
  Then \<open>checkForNewGifts\<close> returns the first-run error and no matches, whatever the validator
  says of the gifts, and every fetched gift is in the cache afterwards (a gift that was not
  there before, in a catalog of distinct identifiers, is stored as fetched). After any further
  polls \<open>later\<close> the gifts of the first poll are still in the cache; a successful poll then
  returns its collected matches instead of the error, none of them for a gift of the first
  poll, and they are the validator's matches of the unseen gifts when the identifiers of that
  catalog are distinct.
\<close>
theorem first_poll_seeds_cache:
  assumes "firstRun gm" and "\<not> testMode_m gm"
      and "gm1 = snd (snd (checkForNewGifts gm (Inr gifts)))"
      and "gm2 = pollAll gm1 later"
  shows "fst (checkForNewGifts gm (Inr gifts)) = Inl firstRunError
       \<and> (\<forall>gift \<in> set gifts. HasGift (cache gm1) (ID gift))
       \<and> (distinct (map ID gifts) \<longrightarrow>
            (\<forall>gift \<in> set gifts. \<not> HasGift (cache gm) (ID gift) \<longrightarrow>
               GetGift (cache gm1) (ID gift) = Some gift))
       \<and> (\<forall>gift \<in> set gifts. HasGift (cache gm2) (ID gift))
       \<and> fst (checkForNewGifts gm2 (Inr gifts2))
           = Inr (fst (scanGifts (validator gm) gifts2 (cache gm2)))
       \<and> (\<forall>r \<in> set (fst (scanGifts (validator gm) gifts2 (cache gm2))).
            ID (Gift r) \<notin> ID ` set gifts)
       \<and> (distinct (map ID gifts2) \<longrightarrow>
            fst (scanGifts (validator gm) gifts2 (cache gm2))
              = unseenMatches (validator gm) (cache gm2) gifts2)"
proof -
  have first: "checkForNewGifts gm (Inr gifts) =
           (Inl firstRunError, snd (snd (scanGifts (validator gm) gifts (cache gm))),
            gm\<lparr>cache := fst (snd (scanGifts (validator gm) gifts (cache gm))), firstRun := False\<rparr>)"
    by (rule checkForNewGifts_first [OF assms(1,2)])
  have c1: "cache gm1 = fst (snd (scanGifts (validator gm) gifts (cache gm)))"
    and nf1: "\<not> firstRun gm1" and v1: "validator gm1 = validator gm"
    by (simp_all add: first assms(3))
  have seeded: "HasGift (cache gm1) (ID gift)" if "gift \<in> set gifts" for gift
    using that by (simp add: c1 scanGifts_caches_all)
  have kept: "HasGift (cache gm2) (ID gift)" if "gift \<in> set gifts" for gift
    using pollAll_state [of gm1 later "ID gift"] seeded [OF that] by (simp add: assms(4))
  have nf2: "\<not> firstRun gm2" and v2: "validator gm2 = validator gm"
    using pollAll_state [of gm1 later] nf1 v1 by (simp_all add: assms(4))
  have a: "fst (checkForNewGifts gm (Inr gifts)) = Inl firstRunError"
    by (simp add: first)
  have b: "\<forall>gift \<in> set gifts. HasGift (cache gm1) (ID gift)"
    using seeded by blast
  have c: "distinct (map ID gifts) \<longrightarrow>
            (\<forall>gift \<in> set gifts. \<not> HasGift (cache gm) (ID gift) \<longrightarrow>
               GetGift (cache gm1) (ID gift) = Some gift)"
    by (simp add: c1 scanGifts_stores_new)
  have d: "\<forall>gift \<in> set gifts. HasGift (cache gm2) (ID gift)"
    using kept by blast
  have e: "fst (checkForNewGifts gm2 (Inr gifts2))
           = Inr (fst (scanGifts (validator gm) gifts2 (cache gm2)))"
    by (simp add: checkForNewGifts_later [OF nf2] v2)
  have f: "\<forall>r \<in> set (fst (scanGifts (validator gm) gifts2 (cache gm2))). ID (Gift r) \<notin> ID ` set gifts"
  proof
    fix r assume "r \<in> set (fst (scanGifts (validator gm) gifts2 (cache gm2)))"
    then have "\<not> HasGift (cache gm2) (ID (Gift r))" by (rule scanGifts_matches_unseen)
    with kept show "ID (Gift r) \<notin> ID ` set gifts" by auto
  qed
  have g: "distinct (map ID gifts2) \<longrightarrow>
            fst (scanGifts (validator gm) gifts2 (cache gm2))
              = unseenMatches (validator gm) (cache gm2) gifts2"
    by (simp add: scanGifts_distinct)
  from a b c d e f g show ?thesis by blast
qed

lemma FormatInt_digits: "FormatInt 1 = ''1''" "FormatInt 2 = ''2''" "FormatInt 3 = ''3''"
  by (simp_all add: FormatInt_def FormatUint.simps)

lemmas monitor_defs = freshMonitor_def NewGiftMonitor_def checkForNewGifts_def IsPaused_def
  HasGift_def SetGift_def GetGift_def firstRunError_def logged_def

lemmas eligibility_defs = IsEligible_def releaseByValidation_def premiumValidation_def
  GetReleasedBy_def GetRequirePremium_def priceValid_def validator_defs

theorem first_poll_seeds_cache_witness:
  "firstRun freshMonitor \<and> \<not> testMode_m freshMonitor
   \<and> IsEligible (validator freshMonitor) (limitedGift 1 50) \<noteq> None
   \<and> checkForNewGifts freshMonitor (Inr [limitedGift 1 50, limitedGift 2 5000])
       = (Inl firstRunError, [LogInfo ''gift id 1 is valid''],
          freshMonitor\<lparr>cache := [(1, limitedGift 1 50), (2, limitedGift 2 5000)], firstRun := False\<rparr>)
   \<and> fst (checkForNewGifts
            (pollAll (freshMonitor\<lparr>cache := [(1, limitedGift 1 50), (2, limitedGift 2 5000)],
                                   firstRun := False\<rparr>) [Inl (New ''timeout'')])
            (Inr [limitedGift 1 50, limitedGift 3 60]))
       = Inr [\<lparr>Gift = limitedGift 3 60, ReceiverType = [3], CountForBuy = 3, Hide = False\<rparr>]"
proof -
  let ?gifts = "[limitedGift 1 50, limitedGift 2 5000]"
  let ?gm1 = "freshMonitor\<lparr>cache := [(1, limitedGift 1 50), (2, limitedGift 2 5000)], firstRun := False\<rparr>"
  have h: "firstRun freshMonitor" "\<not> testMode_m freshMonitor"
    by (simp_all add: monitor_defs)
  have first: "checkForNewGifts freshMonitor (Inr ?gifts)
       = (Inl firstRunError, [LogInfo ''gift id 1 is valid''], ?gm1)"
    by (simp add: monitor_defs eligibility_defs example_defs FormatInt_digits)
  then have s1: "?gm1 = snd (snd (checkForNewGifts freshMonitor (Inr ?gifts)))" by simp
  have el: "IsEligible (validator freshMonitor) (limitedGift 1 50) \<noteq> None"
    by (simp add: monitor_defs eligibility_defs example_defs)
  show ?thesis
    using h el first
      first_poll_seeds_cache [OF h s1 refl, of "[Inl (New ''timeout'')]"
         "[limitedGift 1 50, limitedGift 3 60]"]
    by (simp add: monitor_defs eligibility_defs example_defs unseenMatches_def map_filter_simps)
qed


section \<open>The warm-up error in the poll loop\<close>

lemma logged_logged: "logged ev (logged ev' out) = logged (ev @ ev') out"
  by (simp add: logged_def)

text \<open>
  C8, as the code has it. Let \<open>firstRun\<close> be set, test mode be off and the monitor not be
  paused. The poll of the first tick puts the first-run error on the error channel and nothing
  on the result channel, so \<open>Start\<close> returns no gifts for it. When the loop receives the
  error it calls \<open>SendErrorNotification\<close> with it, logs the notifier's error if there is one,
  and logs the first-run error: the same three steps as for an error of the catalog.
\<close>
theorem warm_up_error_is_notified:
  assumes "firstRun gm" and "\<not> testMode_m gm" and "\<not> paused gm"
  shows "Start \<lparr>monitor = gm, resultCh = [], errCh = []\<rparr>
           (TickerC (Inr gifts) # RecvErr notifErr # sched)
         = logged (snd (snd (scanGifts (validator gm) gifts (cache gm)))
                   @ [SendErrorNotification firstRunError]
                   @ (case notifErr of Some ne \<Rightarrow> [LogError ne] | None \<Rightarrow> [])
                   @ [LogError firstRunError])
             (Start \<lparr>monitor = gm\<lparr>cache := fst (snd (scanGifts (validator gm) gifts (cache gm))),
                                     firstRun := False\<rparr>,
                      resultCh = [], errCh = []\<rparr> sched)
       \<and> Start \<lparr>monitor = gm, resultCh = [], errCh = []\<rparr>
           (TickerC (Inl err) # RecvErr notifErr # sched)
         = logged ([SendErrorNotification err]
                   @ (case notifErr of Some ne \<Rightarrow> [LogError ne] | None \<Rightarrow> [])
                   @ [LogError err])
             (Start \<lparr>monitor = gm, resultCh = [], errCh = []\<rparr> sched)"
proof
  show "Start \<lparr>monitor = gm, resultCh = [], errCh = []\<rparr>
           (TickerC (Inr gifts) # RecvErr notifErr # sched)
         = logged (snd (snd (scanGifts (validator gm) gifts (cache gm)))
                   @ [SendErrorNotification firstRunError]
                   @ (case notifErr of Some ne \<Rightarrow> [LogError ne] | None \<Rightarrow> [])
                   @ [LogError firstRunError])
             (Start \<lparr>monitor = gm\<lparr>cache := fst (snd (scanGifts (validator gm) gifts (cache gm))),
                                     firstRun := False\<rparr>,
                      resultCh = [], errCh = []\<rparr> sched)"
    using assms(3)
    by (simp add: checkForNewGifts_first [OF assms(1,2)] IsPaused_def logged_logged)
  show "Start \<lparr>monitor = gm, resultCh = [], errCh = []\<rparr>
           (TickerC (Inl err) # RecvErr notifErr # sched)
         = logged ([SendErrorNotification err]
                   @ (case notifErr of Some ne \<Rightarrow> [LogError ne] | None \<Rightarrow> [])
                   @ [LogError err])
             (Start \<lparr>monitor = gm, resultCh = [], errCh = []\<rparr> sched)"
    using assms(3)
    by (simp add: checkForNewGifts_def IsPaused_def logged_logged logged_def)
qed

theorem warm_up_error_is_notified_witness:
  "firstRun freshMonitor \<and> \<not> testMode_m freshMonitor \<and> \<not> paused freshMonitor
   \<and> Start \<lparr>monitor = freshMonitor, resultCh = [], errCh = []\<rparr>
        [TickerC (Inr [limitedGift 1 50, limitedGift 2 5000]), RecvErr None]
      = (None,
         [LogInfo ''gift id 1 is valid'', SendErrorNotification firstRunError, LogError firstRunError],
         \<lparr>monitor = freshMonitor\<lparr>cache := [(1, limitedGift 1 50), (2, limitedGift 2 5000)],
                                   firstRun := False\<rparr>,
          resultCh = [], errCh = []\<rparr>)"
proof -
  have h: "firstRun freshMonitor" "\<not> testMode_m freshMonitor" "\<not> paused freshMonitor"
    by (simp_all add: monitor_defs)
  show ?thesis
    using h warm_up_error_is_notified [OF h, of "[limitedGift 1 50, limitedGift 2 5000]" None "[]"]
    by (simp add: monitor_defs eligibility_defs example_defs FormatInt_digits)
qed

text \<open>
  C8 as stated fails: on a fresh monitor, the first tick followed by the receipt of its error
  calls \<open>SendErrorNotification\<close> with the first-run error.
\<close>

theorem warm_up_error_triggers_notification:
  "fst (snd (Start \<lparr>monitor = NewGiftMonitor [] (exampleValidator True 10000) False,
                     resultCh = [], errCh = []\<rparr>
               [TickerC (Inr [limitedGift 1 50, limitedGift 2 5000]), RecvErr None]))
     = [LogInfo ''gift id 1 is valid'',
        SendErrorNotification (Wrap (New ''first run'') ''touch grass''),
        LogError (Wrap (New ''first run'') ''touch grass'')]"
  by (simp add: monitor_defs eligibility_defs example_defs FormatInt_digits)


section \<open>One purchase unit: refusal, retries and outcomes\<close>

lemma outcomes_append: "outcomes (xs @ ys) = outcomes xs @ outcomes ys"
  by (induction xs rule: outcomes.induct) simp_all

lemma purchaseCalls_append: "purchaseCalls (xs @ ys) = purchaseCalls xs + purchaseCalls ys"
  by (simp add: purchaseCalls_def)

lemma after_prefix:
  "e \<notin> set xs \<Longrightarrow> xs @ ys = pre @ e # post \<Longrightarrow> \<exists>pre'. ys = pre' @ e # post"
proof (induction xs arbitrary: pre)
  case Nil
  then show ?case by auto
next
  case (Cons x xs)
  then obtain pre'' where "pre = x # pre''"
    by (cases pre) auto
  with Cons show ?case by auto
qed

lemma retryLoop_refusal:
  "fst (retryLoop gm w gift j lastErr ac) = pre @ TryIncrementCalled False # post
     \<Longrightarrow> post = [Send (failed gift (Some (New ''max buy count reached'')))]"
proof (induction gm w gift j lastErr ac arbitrary: pre rule: retryLoop.induct)
  case (1 gm w gift j lastErr ac)
  let ?ac1 = "snd (runOps (others w j) ac)"
  let ?e = "TryIncrementCalled False"
  note tr = "1.prems"
  show ?case
  proof (cases "int j < retryCount gm")
    case False
    with tr have "[Send (failed gift lastErr)] @ [] = pre @ ?e # post"
      by (simp add: retryLoop.simps [of gm w gift j])
    from after_prefix [OF _ this] show ?thesis by simp
  next
    case inloop: True
    show ?thesis
    proof (cases "ctxErr w j")
      case (Some e)
      with tr inloop have "[Send (failed gift (Some e))] @ [] = pre @ ?e # post"
        by (simp add: retryLoop.simps [of gm w gift j])
      from after_prefix [OF _ this] show ?thesis by simp
    next
      case None
      show ?thesis
      proof (cases "fst (TryIncrement ?ac1)")
        case False
        with tr inloop None
        have eq: "[?e, Send (failed gift (Some (New ''max buy count reached'')))] = pre @ ?e # post"
          by (simp add: retryLoop.simps [of gm w gift j])
        show ?thesis
        proof (cases pre)
          case Nil
          with eq show ?thesis by simp
        next
          case (Cons a pre')
          with eq have "[Send (failed gift (Some (New ''max buy count reached'')))] @ [] = pre' @ ?e # post"
            by simp
          from after_prefix [OF _ this] show ?thesis by simp
        qed
      next
        case ok: True
        show ?thesis
        proof (cases "PurchaseGift (remote w j) gift")
          case None': None
          with tr inloop None ok
          have "[TryIncrementCalled True, PurchaseGiftCalled,
                 Send \<lparr>GiftID = ID (Gift gift), Success = True, Err = None\<rparr>] @ [] = pre @ ?e # post"
            by (simp add: retryLoop.simps [of gm w gift j])
          from after_prefix [OF _ this] show ?thesis by simp
        next
          case (Some err)
          let ?head = "[TryIncrementCalled True, PurchaseGiftCalled, DecrementCalled,
                        Send (failed gift (Some err))]
                       @ (if int j < retryCount gm - 1 then [Sleep] else [])"
          let ?again = "retryLoop gm w gift (Suc j) (Some err) (Decrement (snd (TryIncrement ?ac1)))"
          from tr inloop None ok Some
          have split: "?head @ fst ?again = pre @ ?e # post"
            by (simp add: retryLoop.simps [of gm w gift j] Let_def)
          have "?e \<notin> set ?head" by simp
          from after_prefix [OF this split]
          obtain pre' where "fst ?again = pre' @ ?e # post" ..
          from "1.IH" [OF inloop None refl _ Some this] ok show ?thesis by simp
        qed
      qed
    qed
  qed
qed

lemma retryLoop_all_fail:
  "\<forall>i. ctxErr w i = None \<Longrightarrow> \<forall>i. PurchaseGift (remote w i) gift \<noteq> None
     \<Longrightarrow> TryIncrementCalled False \<notin> set (fst (retryLoop gm w gift j lastErr ac))
     \<Longrightarrow> fst (retryLoop gm w gift j lastErr ac)
          = concat (map (\<lambda>i. failedAttempt gm gift (PurchaseGift (remote w i) gift) i)
                        [j..<nat (retryCount gm)])
            @ [Send (failed gift (if int j < retryCount gm
                                  then PurchaseGift (remote w (nat (retryCount gm) - 1)) gift
                                  else lastErr))]"
proof (induction gm w gift j lastErr ac rule: retryLoop.induct)
  case (1 gm w gift j lastErr ac)
  let ?ac1 = "snd (runOps (others w j) ac)"
  show ?case
  proof (cases "int j < retryCount gm")
    case False
    then have "[j..<nat (retryCount gm)] = []" by simp
    with False show ?thesis by (simp add: retryLoop.simps [of gm w gift j])
  next
    case inloop: True
    have ctx: "ctxErr w j = None" using "1.prems"(1) by simp
    from "1.prems"(2) have "PurchaseGift (remote w j) gift \<noteq> None" by blast
    then obtain err where err: "PurchaseGift (remote w j) gift = Some err" by blast
    have ok: "fst (TryIncrement ?ac1)"
    proof (rule ccontr)
      assume "\<not> fst (TryIncrement ?ac1)"
      with inloop ctx have "TryIncrementCalled False \<in> set (fst (retryLoop gm w gift j lastErr ac))"
        by (simp add: retryLoop.simps [of gm w gift j])
      with "1.prems"(3) show False by simp
    qed
    let ?again = "retryLoop gm w gift (Suc j) (Some err) (Decrement (snd (TryIncrement ?ac1)))"
    have unfold: "fst (retryLoop gm w gift j lastErr ac) = failedAttempt gm gift (Some err) j @ fst ?again"
      using inloop ctx ok err
      by (simp add: retryLoop.simps [of gm w gift j] Let_def failedAttempt_def)
    with "1.prems"(3) have "TryIncrementCalled False \<notin> set (fst ?again)" by simp
    from "1.IH" [OF inloop ctx refl _ err "1.prems"(1,2) this] ok
    have ih: "fst ?again
          = concat (map (\<lambda>i. failedAttempt gm gift (PurchaseGift (remote w i) gift) i)
                        [Suc j..<nat (retryCount gm)])
            @ [Send (failed gift (if int (Suc j) < retryCount gm
                                  then PurchaseGift (remote w (nat (retryCount gm) - 1)) gift
                                  else Some err))]"
      by simp
    have upt: "[j..<nat (retryCount gm)] = j # [Suc j..<nat (retryCount gm)]"
      using inloop by (simp add: upt_conv_Cons)
    have last: "(if int (Suc j) < retryCount gm
                   then PurchaseGift (remote w (nat (retryCount gm) - 1)) gift else Some err)
                = PurchaseGift (remote w (nat (retryCount gm) - 1)) gift"
    proof (cases "int (Suc j) < retryCount gm")
      case True
      then show ?thesis by simp
    next
      case False
      with inloop have "nat (retryCount gm) - 1 = j" by linarith
      with False err show ?thesis by simp
    qed
    show ?thesis
      using inloop by (simp only: unfold ih upt last err list.map concat.simps append_assoc if_True)
  qed
qed

lemma outcomes_failedAttempt: "outcomes (failedAttempt gm gift e j) = [failed gift e]"
  by (simp add: failedAttempt_def)

lemma purchaseCalls_failedAttempt: "purchaseCalls (failedAttempt gm gift e j) = 1"
  by (simp add: failedAttempt_def purchaseCalls_def)

lemma outcomes_attempts:
  "outcomes (concat (map (\<lambda>i. failedAttempt gm gift (f i) i) js)) = map (\<lambda>i. failed gift (f i)) js"
  by (induction js) (simp_all add: outcomes_append outcomes_failedAttempt)

lemma purchaseCalls_attempts:
  "purchaseCalls (concat (map (\<lambda>i. failedAttempt gm gift (f i) i) js)) = length js"
proof (induction js)
  case Nil
  then show ?case by (simp add: purchaseCalls_def)
next
  case (Cons a js)
  then show ?case by (simp add: purchaseCalls_append purchaseCalls_failedAttempt)
qed

lemma PurchaseGift_validationFails:
  assumes "validationFails api gift"
  shows "\<exists>err. PurchaseGift api gift = Some err \<and> validationError err"
  using assms
  by (auto simp: validationFails_def PurchaseGift_def split: sum.splits PaymentsPaymentFormClass.splits)

lemma crowded_run:
  "fst (buyGiftWithRetry (retrying 2) crowdedWorld exampleRequire (NewAtomicCounter 5))
     = [TryIncrementCalled True, PurchaseGiftCalled, DecrementCalled, Send insufficientBalance, Sleep]
       @ TryIncrementCalled False
       # [Send \<lparr>GiftID = 1, Success = False, Err = Some (New ''max buy count reached'')\<rparr>]"
  by code_simp

lemma broke_run:
  "fst (buyGiftWithRetry (retrying 2) brokeWorld exampleRequire (NewAtomicCounter 5))
     = [TryIncrementCalled True, PurchaseGiftCalled, DecrementCalled, Send insufficientBalance, Sleep,
        TryIncrementCalled True, PurchaseGiftCalled, DecrementCalled, Send insufficientBalance,
        Send insufficientBalance]"
  by code_simp

text \<open>
  C2. If a call of \<open>TryIncrement\<close> made by the unit answers false, then all the unit does after
  that call is to send one failed outcome with the error "max buy count reached": no call of
  \<open>PurchaseGift\<close>, no call of \<open>Decrement\<close>, no sleep and no further attempt.
\<close>
theorem budget_refusal_ends_unit:
  assumes "fst (buyGiftWithRetry gm w gift ac) = pre @ TryIncrementCalled False # post"
  shows "post = [Send \<lparr>GiftID = ID (Gift gift), Success = False,
                       Err = Some (New ''max buy count reached'')\<rparr>]"
  using retryLoop_refusal [of gm w gift 0 None ac pre post] assms
  by (simp add: buyGiftWithRetry_def failed_def)

theorem budget_refusal_ends_unit_witness:
  "fst (buyGiftWithRetry (retrying 2) crowdedWorld exampleRequire (NewAtomicCounter 5))
     = [TryIncrementCalled True, PurchaseGiftCalled, DecrementCalled, Send insufficientBalance, Sleep]
       @ TryIncrementCalled False
       # [Send \<lparr>GiftID = ID (Gift exampleRequire), Success = False,
                  Err = Some (New ''max buy count reached'')\<rparr>]"
proof -
  have "ID (Gift exampleRequire) = 1"
    by (simp add: exampleRequire_def limitedGift_def)
  with budget_refusal_ends_unit [OF crowded_run] crowded_run show ?thesis
    by simp
qed

text \<open>
  C6, as the code has it. A unit that is never cancelled, is never refused by the counter and
  whose every call of the pipeline fails sends \<open>retryCount + 1\<close> failed outcomes: one for each
  attempt, with the error of that attempt, and one more after the loop, which repeats the
  error of the last attempt (and has no error when \<open>retryCount\<close> is not positive).
\<close>
theorem exhausted_retries_outcomes:
  assumes "\<forall>j. ctxErr w j = None"
      and "\<forall>j. PurchaseGift (remote w j) gift \<noteq> None"
      and "TryIncrementCalled False \<notin> set (fst (buyGiftWithRetry gm w gift ac))"
  shows "outcomes (fst (buyGiftWithRetry gm w gift ac))
           = map (\<lambda>j. \<lparr>GiftID = ID (Gift gift), Success = False,
                        Err = PurchaseGift (remote w j) gift\<rparr>) [0..<nat (retryCount gm)]
             @ [\<lparr>GiftID = ID (Gift gift), Success = False,
                  Err = (if 0 < retryCount gm
                         then PurchaseGift (remote w (nat (retryCount gm) - 1)) gift else None)\<rparr>]
       \<and> length (outcomes (fst (buyGiftWithRetry gm w gift ac))) = nat (retryCount gm) + 1"
proof -
  have "fst (retryLoop gm w gift 0 None ac)
          = concat (map (\<lambda>i. failedAttempt gm gift (PurchaseGift (remote w i) gift) i)
                        [0..<nat (retryCount gm)])
            @ [Send (failed gift (if int 0 < retryCount gm
                                  then PurchaseGift (remote w (nat (retryCount gm) - 1)) gift
                                  else None))]"
    using retryLoop_all_fail [OF assms(1,2), of gm 0 None ac] assms(3)
    by (simp add: buyGiftWithRetry_def)
  then show ?thesis
    by (simp add: buyGiftWithRetry_def outcomes_append outcomes_attempts failed_def)
qed

theorem exhausted_retries_outcomes_witness:
  "(\<forall>j. ctxErr brokeWorld j = None)
   \<and> (\<forall>j. PurchaseGift (remote brokeWorld j) exampleRequire \<noteq> None)
   \<and> TryIncrementCalled False
        \<notin> set (fst (buyGiftWithRetry (retrying 2) brokeWorld exampleRequire (NewAtomicCounter 5)))
   \<and> outcomes (fst (buyGiftWithRetry (retrying 2) brokeWorld exampleRequire (NewAtomicCounter 5)))
        = [insufficientBalance, insufficientBalance, insufficientBalance]"
proof -
  have h1: "\<forall>j. ctxErr brokeWorld j = None"
    by (simp add: brokeWorld_def)
  have p: "PurchaseGift (remote brokeWorld j) exampleRequire
             = Some (New ''insufficient balance to buy gift'')" for j
    by (simp add: brokeWorld_def PurchaseGift_def validatePurchase_def exampleRequire_def
        limitedGift_def)
  then have h2: "\<forall>j. PurchaseGift (remote brokeWorld j) exampleRequire \<noteq> None"
    by simp
  have h3: "TryIncrementCalled False
        \<notin> set (fst (buyGiftWithRetry (retrying 2) brokeWorld exampleRequire (NewAtomicCounter 5)))"
    by (simp add: broke_run)
  have g: "ID (Gift exampleRequire) = 1"
    by (simp add: exampleRequire_def limitedGift_def)
  have n: "[0..<2] = [0, Suc 0]"
    by (simp add: upt_rec numeral_2_eq_2)
  show ?thesis
    using h1 h2 h3 exhausted_retries_outcomes [OF h1 h2 h3]
    by (simp add: p g n insufficientBalance_def retrying_def)
qed

text \<open>
  C6 as stated fails: with \<open>retryCount = 2\<close> and a balance that never suffices, the unit sends
  three outcomes, the third one after the loop.
\<close>

theorem exhausted_retries_emit_terminal_outcome:
  "outcomes (fst (buyGiftWithRetry \<lparr>retryCount = 2, prioritization = False\<rparr> brokeWorld
                    exampleRequire (NewAtomicCounter 5)))
     = [insufficientBalance, insufficientBalance, insufficientBalance]
   \<and> length (outcomes (fst (buyGiftWithRetry \<lparr>retryCount = 2, prioritization = False\<rparr> brokeWorld
                    exampleRequire (NewAtomicCounter 5))))
       \<noteq> nat (retryCount \<lparr>retryCount = 2, prioritization = False\<rparr>)"
  using broke_run by (simp add: retrying_def)

text \<open>
  C7, as the code has it. A validation error is handled like every other error of the
  pipeline: a unit that is never cancelled, is never refused by the counter and whose every
  attempt ends in a validation error (insufficient balance, or a payment form of an
  unsupported kind) calls \<open>PurchaseGift\<close> \<open>retryCount\<close> times, and each outcome it sends is a
  failure carrying a validation error.
\<close>
theorem validation_errors_are_retried:
  assumes "\<forall>j. ctxErr w j = None"
      and "\<forall>j. validationFails (remote w j) gift"
      and "TryIncrementCalled False \<notin> set (fst (buyGiftWithRetry gm w gift ac))"
  shows "purchaseCalls (fst (buyGiftWithRetry gm w gift ac)) = nat (retryCount gm)
       \<and> (\<forall>r \<in> set (outcomes (fst (buyGiftWithRetry gm w gift ac))).
             \<not> Success r \<and> (0 < retryCount gm \<longrightarrow> (\<exists>err. Err r = Some err \<and> validationError err)))"
proof -
  have fails: "\<forall>j. PurchaseGift (remote w j) gift \<noteq> None"
    using assms(2) PurchaseGift_validationFails by fastforce
  have tr: "fst (retryLoop gm w gift 0 None ac)
          = concat (map (\<lambda>i. failedAttempt gm gift (PurchaseGift (remote w i) gift) i)
                        [0..<nat (retryCount gm)])
            @ [Send (failed gift (if int 0 < retryCount gm
                                  then PurchaseGift (remote w (nat (retryCount gm) - 1)) gift
                                  else None))]"
    using retryLoop_all_fail [OF assms(1) fails, of gm 0 None ac] assms(3)
    by (simp add: buyGiftWithRetry_def)
  have calls: "purchaseCalls (fst (buyGiftWithRetry gm w gift ac)) = nat (retryCount gm)"
    by (simp add: buyGiftWithRetry_def tr purchaseCalls_append purchaseCalls_attempts)
       (simp add: purchaseCalls_def)
  have each: "\<exists>err. PurchaseGift (remote w j) gift = Some err \<and> validationError err" for j
    using assms(2) PurchaseGift_validationFails by blast
  have "\<forall>r \<in> set (outcomes (fst (buyGiftWithRetry gm w gift ac))).
             \<not> Success r \<and> (0 < retryCount gm \<longrightarrow> (\<exists>err. Err r = Some err \<and> validationError err))"
    using each
    by (auto simp: buyGiftWithRetry_def tr outcomes_append outcomes_attempts failed_def)
  with calls show ?thesis by blast
qed

theorem validation_errors_are_retried_witness:
  "(\<forall>j. ctxErr brokeWorld j = None)
   \<and> (\<forall>j. validationFails (remote brokeWorld j) exampleRequire)
   \<and> TryIncrementCalled False
        \<notin> set (fst (buyGiftWithRetry (retrying 2) brokeWorld exampleRequire (NewAtomicCounter 5)))
   \<and> purchaseCalls (fst (buyGiftWithRetry (retrying 2) brokeWorld exampleRequire (NewAtomicCounter 5)))
        = 2"
proof -
  have h1: "\<forall>j. ctxErr brokeWorld j = None"
    by (simp add: brokeWorld_def)
  have h2: "\<forall>j. validationFails (remote brokeWorld j) exampleRequire"
    by (simp add: brokeWorld_def validationFails_def validatePurchase_def exampleRequire_def
        limitedGift_def)
  have h3: "TryIncrementCalled False
        \<notin> set (fst (buyGiftWithRetry (retrying 2) brokeWorld exampleRequire (NewAtomicCounter 5)))"
    by (simp add: broke_run)
  show ?thesis
    using h1 h2 h3 validation_errors_are_retried [OF h1 h2 h3]
    by (simp add: retrying_def)
qed

text \<open>
  C7 as stated fails: the first attempt ends in "insufficient balance to buy gift", and with
  \<open>retryCount = 2\<close> the unit releases the counter, sleeps and calls \<open>PurchaseGift\<close> again.
\<close>

theorem insufficient_balance_is_retried:
  "PurchaseGift (remote brokeWorld 0) exampleRequire
     = Some (New ''insufficient balance to buy gift'')
   \<and> fst (buyGiftWithRetry \<lparr>retryCount = 2, prioritization = False\<rparr> brokeWorld exampleRequire
            (NewAtomicCounter 5))
     = [TryIncrementCalled True, PurchaseGiftCalled, DecrementCalled, Send insufficientBalance, Sleep,
        TryIncrementCalled True, PurchaseGiftCalled, DecrementCalled, Send insufficientBalance,
        Send insufficientBalance]"
  using broke_run
  by (simp add: retrying_def brokeWorld_def PurchaseGift_def validatePurchase_def exampleRequire_def
        limitedGift_def)


section \<open>Saving the cache merges into the snapshot\<close>

lemma mergeNew_count: "newGifts \<le> snd (mergeNew gc m newGifts)"
proof (induction gc arbitrary: m newGifts)
  case Nil
  then show ?case by simp
next
  case (Cons p gc)
  obtain i gift where p: "p = (i, gift)" by (cases p)
  let ?m' = "m(FormatInt i \<mapsto> \<lparr>ID_c = ID gift, Stars_c = Stars gift\<rparr>)"
  have "Suc newGifts \<le> snd (mergeNew gc ?m' (Suc newGifts))"
    and "newGifts \<le> snd (mergeNew gc m newGifts)"
    by (rule Cons)+
  then show ?case by (auto simp: p Let_def)
qed

lemma mergeNew_keeps: "m k = Some v \<Longrightarrow> fst (mergeNew gc m n) k = Some v"
proof (induction gc arbitrary: m n)
  case Nil
  then show ?case by simp
next
  case (Cons p gc)
  obtain i gift where p: "p = (i, gift)" by (cases p)
  let ?m' = "m(FormatInt i \<mapsto> \<lparr>ID_c = ID gift, Stars_c = Stars gift\<rparr>)"
  show ?case
  proof (cases "m (FormatInt i)")
    case None
    with Cons.prems have "k \<noteq> FormatInt i" by auto
    with Cons.prems have "?m' k = Some v" by simp
    then have "fst (mergeNew gc ?m' (n + 1)) k = Some v" by (rule Cons.IH)
    with None show ?thesis by (simp add: p Let_def)
  next
    case (Some old)
    have "fst (mergeNew gc m n) k = Some v" using Cons.prems by (rule Cons.IH)
    with Some show ?thesis by (simp add: p Let_def)
  qed
qed

lemma mergeNew_keeps_update: "fst (mergeNew gc (m(k \<mapsto> v)) n) k = Some v"
  by (rule mergeNew_keeps) simp

lemma mergeNew_only_new:
  "fst (mergeNew gc m n) k = Some v \<Longrightarrow> m k = None
     \<Longrightarrow> \<exists>(i, gift) \<in> set gc. k = FormatInt i \<and> v = \<lparr>ID_c = ID gift, Stars_c = Stars gift\<rparr>"
proof (induction gc arbitrary: m n)
  case Nil
  then show ?case by simp
next
  case (Cons p gc)
  obtain i gift where p: "p = (i, gift)" by (cases p)
  let ?c = "\<lparr>ID_c = ID gift, Stars_c = Stars gift\<rparr>"
  let ?m' = "m(FormatInt i \<mapsto> ?c)"
  show ?case
  proof (cases "m (FormatInt i)")
    case (Some old)
    with Cons.prems have "fst (mergeNew gc m n) k = Some v" by (simp add: p Let_def)
    then have "\<exists>(i, gift) \<in> set gc. k = FormatInt i \<and> v = \<lparr>ID_c = ID gift, Stars_c = Stars gift\<rparr>"
      using Cons.prems(2) by (rule Cons.IH)
    then show ?thesis by auto
  next
    case None
    with Cons.prems have run: "fst (mergeNew gc ?m' (n + 1)) k = Some v"
      by (simp add: p Let_def)
    show ?thesis
    proof (cases "k = FormatInt i")
      case True
      with run have "v = ?c" by (simp add: mergeNew_keeps_update)
      with True show ?thesis by (auto simp: p)
    next
      case False
      then have "?m' k = None" using Cons.prems(2) by simp
      with run have "\<exists>(i, gift) \<in> set gc. k = FormatInt i \<and> v = \<lparr>ID_c = ID gift, Stars_c = Stars gift\<rparr>"
        by (rule Cons.IH)
      then show ?thesis by auto
    qed
  qed
qed

lemma mergeNew_adds:
  "(i, gift) \<in> set gc \<Longrightarrow> fst (mergeNew gc m n) (FormatInt i) \<noteq> None"
proof (induction gc arbitrary: m n)
  case Nil
  then show ?case by simp
next
  case (Cons p gc)
  obtain i' gift' where p: "p = (i', gift')" by (cases p)
  let ?c = "\<lparr>ID_c = ID gift', Stars_c = Stars gift'\<rparr>"
  show ?case
  proof (cases "(i, gift) = p")
    case True
    then have same: "i' = i" using p by simp
    show ?thesis
    proof (cases "m (FormatInt i)")
      case None
      then show ?thesis by (simp add: p same Let_def mergeNew_keeps_update)
    next
      case (Some v)
      then have "fst (mergeNew gc m n) (FormatInt i) = Some v" by (rule mergeNew_keeps)
      with Some show ?thesis by (simp add: p same Let_def)
    qed
  next
    case False
    with Cons.prems have "(i, gift) \<in> set gc" by auto
    then have "fst (mergeNew gc m' n') (FormatInt i) \<noteq> None" for m' n' by (rule Cons.IH)
    then show ?thesis by (simp add: p Let_def)
  qed
qed

lemma mergeNew_nothing_new:
  "\<forall>(i, gift) \<in> set gc. m (FormatInt i) \<noteq> None \<Longrightarrow> mergeNew gc m n = (m, n)"
  by (induction gc arbitrary: m n) (auto simp: Let_def)

lemma mergeNew_something_new:
  "(i, gift) \<in> set gc \<Longrightarrow> m (FormatInt i) = None \<Longrightarrow> n < snd (mergeNew gc m n)"
proof (induction gc arbitrary: m n)
  case Nil
  then show ?case by simp
next
  case (Cons p gc)
  obtain i' gift' where p: "p = (i', gift')" by (cases p)
  let ?m' = "m(FormatInt i' \<mapsto> \<lparr>ID_c = ID gift', Stars_c = Stars gift'\<rparr>)"
  show ?case
  proof (cases "m (FormatInt i')")
    case None
    have "n + 1 \<le> snd (mergeNew gc ?m' (n + 1))"
      by (rule mergeNew_count)
    with None show ?thesis by (simp add: p Let_def)
  next
    case (Some old)
    with Cons.prems p have "(i, gift) \<in> set gc" by auto
    then have "n < snd (mergeNew gc m n)" using Cons.prems(2) by (rule Cons.IH)
    with Some show ?thesis by (simp add: p Let_def)
  qed
qed

text \<open>
  C5, as the code has it. Let reading, encoding and writing succeed, and let the snapshot be
  absent or a well-formed JSON object. Then every entry of the snapshot is still there,
  unchanged, after \<open>saveToFile\<close>; an entry that is new in the snapshot comes from an in-memory
  entry whose key was absent; every in-memory entry has its key in the snapshot afterwards;
  if no in-memory key is absent from the snapshot, the snapshot is left as it is and the only
  file operation is the read of \<open>cache.json\<close>; and the file is written only when some
  in-memory key was absent.
\<close>
theorem saveToFile_merges:
  assumes "readFault faults = None" and "marshalFault faults = None" and "writeFault faults = None"
      and "file = NoFile \<or> file = Json snapshot"
  shows "(\<forall>k v. entriesOf file k = Some v \<longrightarrow> entriesOf (fst (saveToFile gc faults file)) k = Some v)
       \<and> (\<forall>k v. entriesOf (fst (saveToFile gc faults file)) k = Some v \<and> entriesOf file k = None
             \<longrightarrow> (\<exists>(i, gift) \<in> set gc. k = FormatInt i
                                        \<and> v = \<lparr>ID_c = ID gift, Stars_c = Stars gift\<rparr>))
       \<and> (\<forall>(i, gift) \<in> set gc. entriesOf (fst (saveToFile gc faults file)) (FormatInt i) \<noteq> None)
       \<and> ((\<forall>(i, gift) \<in> set gc. entriesOf file (FormatInt i) \<noteq> None)
             \<longrightarrow> saveToFile gc faults file = (file, [ReadFile ''cache.json'']))
       \<and> (\<forall>name. WriteFile name \<in> set (snd (saveToFile gc faults file))
             \<longrightarrow> (\<exists>(i, gift) \<in> set gc. entriesOf file (FormatInt i) = None))"
proof -
  let ?m = "entriesOf file"
  have rd: "readExisting faults file = ((case file of Json m \<Rightarrow> Some m | _ \<Rightarrow> None), [ReadFile ''cache.json''])"
    using assms(1,4) by (auto simp: readExisting_def)
  have ex: "(case (case file of Json m \<Rightarrow> Some m | _ \<Rightarrow> None) of None \<Rightarrow> Map.empty | Some m \<Rightarrow> m) = ?m"
    using assms(4) by (auto simp: entriesOf_def)
  have save: "saveToFile gc faults file =
      (if snd (mergeNew gc ?m 0) = 0 then (file, [ReadFile ''cache.json''])
       else (Json (fst (mergeNew gc ?m 0)),
             [ReadFile ''cache.json'', WriteFile ''cache.json'',
              Infof (''Saved '' @ FormatUint (snd (mergeNew gc ?m 0)) @ '' new gifts to cache file'')]))"
    using assms(2,3) by (simp add: saveToFile_def rd ex case_prod_beta Let_def)
  have zero: "snd (mergeNew gc ?m 0) = 0 \<longleftrightarrow> (\<forall>(i, gift) \<in> set gc. ?m (FormatInt i) \<noteq> None)"
  proof
    assume z: "snd (mergeNew gc ?m 0) = 0"
    show "\<forall>(i, gift) \<in> set gc. ?m (FormatInt i) \<noteq> None"
    proof (rule ccontr)
      assume "\<not> (\<forall>(i, gift) \<in> set gc. ?m (FormatInt i) \<noteq> None)"
      then obtain i gift where "(i, gift) \<in> set gc" "?m (FormatInt i) = None" by auto
      then have "0 < snd (mergeNew gc ?m 0)" by (rule mergeNew_something_new)
      with z show False by simp
    qed
  next
    assume "\<forall>(i, gift) \<in> set gc. ?m (FormatInt i) \<noteq> None"
    then show "snd (mergeNew gc ?m 0) = 0" by (simp add: mergeNew_nothing_new)
  qed
  have after: "entriesOf (fst (saveToFile gc faults file)) = fst (mergeNew gc ?m 0)"
  proof (cases "snd (mergeNew gc ?m 0) = 0")
    case True
    then have "mergeNew gc ?m 0 = (?m, 0)" using zero by (simp add: mergeNew_nothing_new)
    with True show ?thesis by (simp add: save)
  next
    case False
    then show ?thesis by (simp add: save entriesOf_def)
  qed
  have a: "\<forall>k v. ?m k = Some v \<longrightarrow> entriesOf (fst (saveToFile gc faults file)) k = Some v"
    by (simp add: after mergeNew_keeps)
  have b: "\<forall>k v. entriesOf (fst (saveToFile gc faults file)) k = Some v \<and> ?m k = None
             \<longrightarrow> (\<exists>(i, gift) \<in> set gc. k = FormatInt i
                                        \<and> v = \<lparr>ID_c = ID gift, Stars_c = Stars gift\<rparr>)"
    unfolding after using mergeNew_only_new by blast
  have c: "\<forall>(i, gift) \<in> set gc. entriesOf (fst (saveToFile gc faults file)) (FormatInt i) \<noteq> None"
    unfolding after using mergeNew_adds by blast
  have d: "(\<forall>(i, gift) \<in> set gc. ?m (FormatInt i) \<noteq> None)
             \<longrightarrow> saveToFile gc faults file = (file, [ReadFile ''cache.json''])"
    using zero by (simp add: save)
  have e: "\<forall>name. WriteFile name \<in> set (snd (saveToFile gc faults file))
             \<longrightarrow> (\<exists>(i, gift) \<in> set gc. ?m (FormatInt i) = None)"
  proof (cases "snd (mergeNew gc ?m 0) = 0")
    case True
    then show ?thesis by (simp add: save)
  next
    case False
    then have "\<not> (\<forall>(i, gift) \<in> set gc. ?m (FormatInt i) \<noteq> None)" using zero by simp
    then show ?thesis by auto
  qed
  from a b c d e show ?thesis by blast
qed

lemma FormatUint_1: "FormatUint (Suc 0) = ''1''"
  by (simp add: FormatUint.simps)

theorem saveToFile_merges_witness:
  "readFault noFaults = None \<and> marshalFault noFaults = None \<and> writeFault noFaults = None
   \<and> saveToFile [(1, limitedGift 1 50), (2, limitedGift 2 5000)] noFaults (Json savedOne)
       = (Json (savedOne(''2'' \<mapsto> \<lparr>ID_c = 2, Stars_c = 5000\<rparr>)),
          [ReadFile ''cache.json'', WriteFile ''cache.json'',
           Infof ''Saved 1 new gifts to cache file''])
   \<and> entriesOf (fst (saveToFile [(1, limitedGift 1 50), (2, limitedGift 2 5000)] noFaults
                        (Json savedOne))) ''1''
       = Some \<lparr>ID_c = 1, Stars_c = 40\<rparr>
   \<and> saveToFile [(1, limitedGift 1 50)] noFaults (Json savedOne)
       = (Json savedOne, [ReadFile ''cache.json''])"
proof -
  have h: "readFault noFaults = None" "marshalFault noFaults = None" "writeFault noFaults = None"
    by (simp_all add: noFaults_def)
  have f: "Json savedOne = NoFile \<or> Json savedOne = Json savedOne" by simp
  have run: "saveToFile [(1, limitedGift 1 50), (2, limitedGift 2 5000)] noFaults (Json savedOne)
       = (Json (savedOne(''2'' \<mapsto> \<lparr>ID_c = 2, Stars_c = 5000\<rparr>)),
          [ReadFile ''cache.json'', WriteFile ''cache.json'',
           Infof ''Saved 1 new gifts to cache file''])"
    by (simp add: saveToFile_def readExisting_def noFaults_def savedOne_def FormatInt_digits
        FormatUint_1 limitedGift_def)
  have old: "entriesOf (Json savedOne) ''1'' = Some \<lparr>ID_c = 1, Stars_c = 40\<rparr>"
    and known: "\<forall>(i, gift) \<in> set [(1, limitedGift 1 50)]. entriesOf (Json savedOne) (FormatInt i) \<noteq> None"
    by (simp_all add: entriesOf_def savedOne_def FormatInt_digits)
  show ?thesis
    using h run old known
      saveToFile_merges [OF h f, of "[(1, limitedGift 1 50), (2, limitedGift 2 5000)]"]
      saveToFile_merges [OF h f, of "[(1, limitedGift 1 50)]"]
    by simp
qed

text \<open>
  C5 as stated fails in two places. A save with nothing new still reads \<open>cache.json\<close>. And a
  save whose read fails takes the snapshot for empty: when its write then succeeds, an entry
  that was in the snapshot and is not in memory is gone.
\<close>

theorem saveToFile_reads_and_may_overwrite:
  "snd (saveToFile [(1, limitedGift 1 50)] noFaults (Json savedOne)) = [ReadFile ''cache.json'']
   \<and> entriesOf (Json savedOne) ''1'' = Some \<lparr>ID_c = 1, Stars_c = 40\<rparr>
   \<and> entriesOf (fst (saveToFile [(2, limitedGift 2 5000)]
                        \<lparr>readFault = Some (New ''permission denied''), marshalFault = None,
                         writeFault = None\<rparr>
                        (Json savedOne))) ''1''
       = None"
  by (simp add: saveToFile_def readExisting_def noFaults_def savedOne_def FormatInt_digits
        FormatUint_1 limitedGift_def entriesOf_def)


section \<open>A rate limiter with no rate\<close>

lemma NewRateLimiter_negative:
  "rps < 0 \<Longrightarrow> NewRateLimiter rps = Inl (Panic ''makechan: size out of range'')"
  by (simp add: NewRateLimiter_def NewTicker_def makeChan_def Hour_def Second_def)

lemma NewRateLimiter_zero:
  "NewRateLimiter 0 = Inr \<lparr>tokensCap = 0, tokensLen = 0, tickerPeriod = Hour, maxTokens = 0,
                           closed = False, refilling = False\<rparr>"
  by (simp add: NewRateLimiter_def NewTicker_def makeChan_def Hour_def Second_def)

lemma ticks_not_refilling: "\<not> refilling rl \<Longrightarrow> ticks n rl = rl"
  by (induction n arbitrary: rl) (simp_all add: refillTick_def)

lemma zero_rate_blocks:
  assumes "NewRateLimiter 0 = Inr rl"
  shows "Acquire (ticks n rl) None preferToken = (Blocks, ticks n rl)
       \<and> Acquire (ticks n rl) (Some err) preferToken = (CtxError err, ticks n rl)"
proof -
  from assms have rl: "rl = \<lparr>tokensCap = 0, tokensLen = 0, tickerPeriod = Hour, maxTokens = 0,
                           closed = False, refilling = False\<rparr>"
    by (simp add: NewRateLimiter_zero)
  then have "ticks n rl = rl" by (simp add: ticks_not_refilling)
  then show ?thesis by (simp add: Acquire_def rl)
qed

text \<open>
  C9 fails on the code for a negative rate. \<open>NewRateLimiter\<close> guards the ticker against a rate
  that is not positive, but passes the rate to \<open>make\<close> as the capacity of the token channel:
  with \<open>rps = -1\<close> the constructor panics instead of returning a limiter that blocks.
\<close>
theorem NewRateLimiter_negative_rate_panics:
  "NewRateLimiter (- 1) = Inl (Panic ''makechan: size out of range'')"
  by (simp add: NewRateLimiter_def NewTicker_def makeChan_def Hour_def Second_def)


end
